theory Spec2Isabelle
  imports Main "HOL-Library.AList"
begin

section \<open>Decoded JSON and the Python operations applied to it\<close>

text \<open>
  The inventory script \<^verbatim>\<open>ansible/inventory/hosting.py\<close> works on values decoded by
  \<^verbatim>\<open>json.loads\<close>. A decoded object is a Python dict, kept here as an association list
  in insertion order (its keys are distinct). JSON numbers with a fraction or an
  exponent (Python floats) are not part of the model.
\<close>

datatype json =
    JNull
  | JBool bool
  | JInt int
  | JStr string
  | JList "json list"
  | JDict "(string \<times> json) list"

text \<open>
  The exceptions the script can raise. \<open>Unmodelled\<close> is not a Python exception: it marks
  the places where Python would go on with a value this model does not follow (a dict
  key or set member that is not a string, the \<^verbatim>\<open>str()\<close> of a list or dict).
\<close>

datatype error = KeyError | TypeError | AttributeError | ValueError | IndexError | Unmodelled

definition err_bind :: "error + 'a \<Rightarrow> ('a \<Rightarrow> error + 'b) \<Rightarrow> error + 'b" where
  "err_bind m f = (case m of Inl e \<Rightarrow> Inl e | Inr x \<Rightarrow> f x)"

text \<open>Python truthiness: \<^verbatim>\<open>if x\<close>, \<^verbatim>\<open>not x\<close>.\<close>

fun truthy :: "json \<Rightarrow> bool" where
  "truthy JNull = False"
| "truthy (JBool b) = b"
| "truthy (JInt n) = (n \<noteq> 0)"
| "truthy (JStr s) = (s \<noteq> [])"
| "truthy (JList xs) = (xs \<noteq> [])"
| "truthy (JDict kvs) = (kvs \<noteq> [])"

text \<open>\<^verbatim>\<open>d.get(key, default)\<close>: only a dict has the method.\<close>

fun dict_get :: "json \<Rightarrow> string \<Rightarrow> json \<Rightarrow> error + json" where
  "dict_get (JDict kvs) key dflt = (case map_of kvs key of None \<Rightarrow> Inr dflt | Some v \<Rightarrow> Inr v)"
| "dict_get _ key dflt = Inl AttributeError"

text \<open>\<^verbatim>\<open>d[key]\<close> with a string key: KeyError on a dict without the key, TypeError on
  every other value (a list or string wants an integer index, the rest has no subscript).\<close>

fun subscript :: "json \<Rightarrow> string \<Rightarrow> error + json" where
  "subscript (JDict kvs) key = (case map_of kvs key of None \<Rightarrow> Inl KeyError | Some v \<Rightarrow> Inr v)"
| "subscript _ key = Inl TypeError"

text \<open>Iteration (\<^verbatim>\<open>for x in v\<close>, \<^verbatim>\<open>list.extend(v)\<close>): a list yields its elements, a string
  its characters, a dict its keys; nothing else is iterable.\<close>

fun py_iter :: "json \<Rightarrow> error + json list" where
  "py_iter (JList xs) = Inr xs"
| "py_iter (JStr s) = Inr (map (\<lambda>c. JStr [c]) s)"
| "py_iter (JDict kvs) = Inr (map (\<lambda>kv. JStr (fst kv)) kvs)"
| "py_iter _ = Inl TypeError"

text \<open>Decimal digits of a natural number, and \<^verbatim>\<open>str(n)\<close> of an int.\<close>

fun digits_of :: "nat \<Rightarrow> string" where
  "digits_of n =
     (if n < 10 then [''0123456789'' ! n]
      else digits_of (n div 10) @ [''0123456789'' ! (n mod 10)])"

declare digits_of.simps [simp del]

definition str_of_int :: "int \<Rightarrow> string" where
  "str_of_int i = (if i < 0 then CHR ''-'' # digits_of (nat (- i)) else digits_of (nat i))"

text \<open>The text an f-string puts in for \<^verbatim>\<open>{v}\<close>, that is \<^verbatim>\<open>str(v)\<close>.\<close>

fun py_format :: "json \<Rightarrow> error + string" where
  "py_format (JStr s) = Inr s"
| "py_format (JInt n) = Inr (str_of_int n)"
| "py_format (JBool b) = Inr (if b then ''True'' else ''False'')"
| "py_format JNull = Inr ''None''"
| "py_format (JList xs) = Inl Unmodelled"
| "py_format (JDict kvs) = Inl Unmodelled"

section \<open>Configuration and the network\<close>

text \<open>
  \<^verbatim>\<open>API_URL\<close> and \<^verbatim>\<open>API_KEY\<close> are read from the environment when the module is loaded.
\<close>

record config =
  API_URL :: string
  API_KEY :: string

text \<open>
  A request is its URL and its headers. What \<^verbatim>\<open>urlopen\<close> followed by \<^verbatim>\<open>json.loads\<close>
  gives: an exception that \<^verbatim>\<open>api_get\<close> catches (\<^verbatim>\<open>URLError\<close>, \<^verbatim>\<open>HTTPError\<close> for a
  non-2xx status, \<^verbatim>\<open>OSError\<close> for a timeout or a refused connection), a body that does
  not decode (\<^verbatim>\<open>json.loads\<close> raises a \<^verbatim>\<open>ValueError\<close>, which is not caught), or the decoded
  body. The network answers the \<open>k\<close>-th request of a run, so that it may answer the
  same URL differently at different times.
\<close>

type_synonym request = "string \<times> (string \<times> string) list"

datatype response = Transport_error | Undecodable | Body json

type_synonym network = "nat \<Rightarrow> request \<Rightarrow> response"

definition make_request :: "config \<Rightarrow> string \<Rightarrow> request" where
  "make_request cfg url =
     (url, if API_KEY cfg \<noteq> [] then [(''X-API-Key'', API_KEY cfg)] else [])"

section \<open>The paginated fetcher: \<^verbatim>\<open>api_get\<close>\<close>

text \<open>The URL of the next page: \<^verbatim>\<open>f"{API_URL}{path}{separator}cursor={cursor}"\<close>.\<close>

definition next_url :: "config \<Rightarrow> string \<Rightarrow> string \<Rightarrow> string" where
  "next_url cfg path cursor =
     API_URL cfg @ path @ (if CHR ''?'' \<in> set path then ''&'' else ''?'') @ ''cursor='' @ cursor"

text \<open>
  The body of the \<^verbatim>\<open>while True\<close> loop after the response is decoded (lines 62 to 74):
  the items so far extended by the page's, and the URL to fetch next, \<open>None\<close> at a
  \<^verbatim>\<open>break\<close>.
\<close>

definition page_step :: "config \<Rightarrow> string \<Rightarrow> json \<Rightarrow> json list \<Rightarrow> error + (json list \<times> string option)" where
  "page_step cfg path data items =
     err_bind (dict_get data ''items'' (JList [])) (\<lambda>page_items.
     err_bind (if truthy page_items
               then err_bind (py_iter page_items) (\<lambda>xs. Inr (items @ xs))
               else Inr items) (\<lambda>items'.
     err_bind (dict_get data ''has_more'' (JBool False)) (\<lambda>has_more.
       if truthy has_more then
         err_bind (dict_get data ''next_cursor'' (JStr [])) (\<lambda>cursor.
           if truthy cursor then
             err_bind (py_format cursor) (\<lambda>c. Inr (items', Some (next_url cfg path c)))
           else Inr (items', None))
       else Inr (items', None))))"

text \<open>
  The loop. It may run forever (a server that always says \<^verbatim>\<open>has_more\<close> with a cursor),
  so it is a partial function: \<open>None\<close> is the run that does not return. A run that
  returns gives the exception raised, or the items with the number of requests made so
  far in the whole program.
\<close>

partial_function (option) api_get_loop ::
  "config \<Rightarrow> network \<Rightarrow> string \<Rightarrow> string \<Rightarrow> json list \<Rightarrow> nat \<Rightarrow> (error + json list \<times> nat) option" where
  "api_get_loop cfg net path url items k =
     (case net k (make_request cfg url) of
        Transport_error \<Rightarrow> Some (Inr ([], Suc k))
      | Undecodable \<Rightarrow> Some (Inl ValueError)
      | Body data \<Rightarrow>
          (case page_step cfg path data items of
             Inl e \<Rightarrow> Some (Inl e)
           | Inr (items', None) \<Rightarrow> Some (Inr (items', Suc k))
           | Inr (items', Some url') \<Rightarrow> api_get_loop cfg net path url' items' (Suc k)))"

declare api_get_loop.simps [code]

definition api_get :: "config \<Rightarrow> network \<Rightarrow> string \<Rightarrow> nat \<Rightarrow> (error + json list \<times> nat) option" where
  "api_get cfg net path k = api_get_loop cfg net path (API_URL cfg @ path) [] k"

section \<open>The static source parser: \<^verbatim>\<open>get_static_inventory\<close>\<close>

text \<open>
  The file is given as the lines Python's file iterator yields, \<open>None\<close> when
  \<^verbatim>\<open>static.ini\<close> does not exist. A character stands for a code point below 256; the
  white space of \<^verbatim>\<open>str.strip()\<close> and \<^verbatim>\<open>str.split()\<close> in that range is listed in
  \<open>is_space\<close>.
\<close>

definition is_space :: "char \<Rightarrow> bool" where
  "is_space c = (c \<in> set [CHR 0x09, CHR 0x0A, CHR 0x0B, CHR 0x0C, CHR 0x0D, CHR 0x1C,
                            CHR 0x1D, CHR 0x1E, CHR 0x1F, CHR 0x20, CHR 0x85, CHR 0xA0])"

definition strip :: "string \<Rightarrow> string" where
  "strip s = rev (dropWhile is_space (rev (dropWhile is_space s)))"

text \<open>\<^verbatim>\<open>s.split()\<close>: the maximal runs of characters that are not white space. The first
  argument is the run being read.\<close>

fun split_ws :: "string \<Rightarrow> string \<Rightarrow> string list" where
  "split_ws cur [] = (if cur = [] then [] else [cur])"
| "split_ws cur (c # cs) =
     (if is_space c then (if cur = [] then split_ws [] cs else cur # split_ws [] cs)
      else split_ws (cur @ [c]) cs)"

definition py_split :: "string \<Rightarrow> string list" where
  "py_split s = split_ws [] s"

fun startswith :: "string \<Rightarrow> char \<Rightarrow> bool" where
  "startswith [] c = False"
| "startswith (x # xs) c = (x = c)"

definition endswith :: "string \<Rightarrow> char \<Rightarrow> bool" where
  "endswith s c = (s \<noteq> [] \<and> last s = c)"

type_synonym static_groups = "(string \<times> string list) list"
type_synonym static_hostvars = "(string \<times> (string \<times> string) list) list"

record pstate =
  groups :: static_groups
  hostvars :: static_hostvars
  current_group :: "string option"

text \<open>One token after the hostname (lines 104 to 108): \<^verbatim>\<open>part.split("=", 1)\<close> cuts at the
  first \<^verbatim>\<open>=\<close>.\<close>

definition record_var :: "string \<Rightarrow> string \<Rightarrow> static_hostvars \<Rightarrow> static_hostvars" where
  "record_var hostname part hv =
     (if CHR ''='' \<in> set part then
        AList.update hostname
          (AList.update (takeWhile (\<lambda>c. c \<noteq> CHR ''='') part)
                        (tl (dropWhile (\<lambda>c. c \<noteq> CHR ''='') part))
                        (case map_of hv hostname of None \<Rightarrow> [] | Some vars \<Rightarrow> vars))
          hv
      else hv)"

text \<open>
  One line of the file (lines 91 to 108). \<^verbatim>\<open>if current_group:\<close> is false for \<^verbatim>\<open>None\<close> and
  for the empty name of a \<^verbatim>\<open>[]\<close> header. \<^verbatim>\<open>parts[0]\<close> and \<^verbatim>\<open>groups[current_group]\<close>
  raise when the list is empty or the key is missing.
\<close>

definition parse_line :: "pstate \<Rightarrow> string \<Rightarrow> error + pstate" where
  "parse_line st raw =
     (let line = strip raw in
      if line = [] \<or> startswith line (CHR ''#'') \<or> startswith line (CHR '';'') then Inr st
      else if startswith line (CHR ''['') \<and> endswith line (CHR '']'') then
        (let name = butlast (tl line) in
         Inr (st\<lparr>current_group := Some name,
                 groups := (if map_of (groups st) name = None then AList.update name [] (groups st)
                            else groups st)\<rparr>))
      else
        (case current_group st of
           None \<Rightarrow> Inr st
         | Some g \<Rightarrow>
             if g = [] then Inr st
             else
               (case py_split line of
                  [] \<Rightarrow> Inl IndexError
                | hostname # rest \<Rightarrow>
                    (case map_of (groups st) g of
                       None \<Rightarrow> Inl KeyError
                     | Some hosts \<Rightarrow>
                         Inr (st\<lparr>groups := AList.update g (hosts @ [hostname]) (groups st),
                                 hostvars := fold (record_var hostname) rest (hostvars st)\<rparr>)))))"

fun parse_lines :: "pstate \<Rightarrow> string list \<Rightarrow> error + pstate" where
  "parse_lines st [] = Inr st"
| "parse_lines st (l # ls) =
     (case parse_line st l of Inl e \<Rightarrow> Inl e | Inr st' \<Rightarrow> parse_lines st' ls)"

definition get_static_inventory ::
  "string list option \<Rightarrow> error + (static_groups \<times> static_hostvars)" where
  "get_static_inventory file =
     (case file of
        None \<Rightarrow> Inr ([], [])
      | Some ls \<Rightarrow>
          (case parse_lines \<lparr>groups = [], hostvars = [], current_group = None\<rparr> ls of
             Inl e \<Rightarrow> Inl e
           | Inr st \<Rightarrow> Inr (groups st, hostvars st)))"

section \<open>The inventory builder: \<^verbatim>\<open>build_inventory\<close>\<close>

text \<open>
  The inventory is one dict: the key \<^verbatim>\<open>_meta\<close> holds \<^verbatim>\<open>{"hostvars": {...}}\<close>, every other
  key a group \<^verbatim>\<open>{"hosts": [...]}\<close>. Both kinds of entry live in the same association
  list, as in the script, so that a group named \<^verbatim>\<open>_meta\<close> meets the entry that has no
  \<^verbatim>\<open>hosts\<close>.
\<close>

datatype entry = Meta "(string \<times> json) list" | Group "string list"

type_synonym inventory = "(string \<times> entry) list"

definition ROLE_MAP :: "(string \<times> string) list" where
  "ROLE_MAP =
     [(''web'', ''web''), (''database'', ''db''), (''dns'', ''dns''), (''valkey'', ''valkey''),
      (''email'', ''email''), (''storage'', ''storage''), (''s3'', ''storage''),
      (''dbadmin'', ''dbadmin''), (''lb'', ''lb'')]"

text \<open>\<^verbatim>\<open>if group not in inventory: inventory[group] = {"hosts": []}\<close>\<close>

definition ensure_group :: "string \<Rightarrow> inventory \<Rightarrow> inventory" where
  "ensure_group g ivt = (if map_of ivt g = None then AList.update g (Group []) ivt else ivt)"

text \<open>\<^verbatim>\<open>inventory[group]["hosts"]\<close>\<close>

definition get_hosts :: "string \<Rightarrow> inventory \<Rightarrow> error + string list" where
  "get_hosts g ivt =
     (case map_of ivt g of
        None \<Rightarrow> Inl KeyError
      | Some (Meta hv) \<Rightarrow> Inl KeyError
      | Some (Group hs) \<Rightarrow> Inr hs)"

text \<open>\<^verbatim>\<open>inventory[group]["hosts"].append(hostname)\<close>\<close>

definition append_host :: "string \<Rightarrow> string \<Rightarrow> inventory \<Rightarrow> error + inventory" where
  "append_host g h ivt =
     err_bind (get_hosts g ivt) (\<lambda>hs. Inr (AList.update g (Group (hs @ [h])) ivt))"

text \<open>\<^verbatim>\<open>if hostname not in inventory[group]["hosts"]: inventory[group]["hosts"].append(hostname)\<close>\<close>

definition add_host_once :: "string \<Rightarrow> string \<Rightarrow> inventory \<Rightarrow> error + inventory" where
  "add_host_once g h ivt =
     err_bind (get_hosts g ivt) (\<lambda>hs. if h \<in> set hs then Inr ivt else append_host g h ivt)"

text \<open>\<^verbatim>\<open>inventory["_meta"]["hostvars"][hostname] = v\<close>\<close>

definition set_hostvars :: "string \<Rightarrow> json \<Rightarrow> inventory \<Rightarrow> error + inventory" where
  "set_hostvars h v ivt =
     (case map_of ivt ''_meta'' of
        Some (Meta hv) \<Rightarrow> Inr (AList.update ''_meta'' (Meta (AList.update h v hv)) ivt)
      | Some (Group hs) \<Rightarrow> Inl KeyError
      | None \<Rightarrow> Inl KeyError)"

text \<open>A value used as a set member and dict key (the hostname, a role): a list or dict
  is unhashable; a number, boolean or null would be a key that is not a string.\<close>

fun hashable_str :: "json \<Rightarrow> error + string" where
  "hashable_str (JStr s) = Inr s"
| "hashable_str (JList xs) = Inl TypeError"
| "hashable_str (JDict kvs) = Inl TypeError"
| "hashable_str _ = Inl Unmodelled"

text \<open>\<^verbatim>\<open>ROLE_MAP.get(role, role)\<close>\<close>

definition role_group :: "json \<Rightarrow> error + string" where
  "role_group role =
     err_bind (hashable_str role) (\<lambda>r. Inr (case map_of ROLE_MAP r of None \<Rightarrow> r | Some g \<Rightarrow> g))"

fun map_err :: "('a \<Rightarrow> error + 'b) \<Rightarrow> 'a list \<Rightarrow> error + 'b list" where
  "map_err f [] = Inr []"
| "map_err f (x # xs) = err_bind (f x) (\<lambda>y. err_bind (map_err f xs) (\<lambda>ys. Inr (y # ys)))"

text \<open>One element of \<^verbatim>\<open>shard_assignments\<close> (lines 143 to 147).\<close>

definition shard_assignment :: "json \<Rightarrow> error + json" where
  "shard_assignment s =
     err_bind (dict_get s ''shard_id'' (JStr [])) (\<lambda>shard_id.
     err_bind (dict_get s ''shard_role'' (JStr [])) (\<lambda>shard_role.
     err_bind (dict_get s ''shard_index'' (JInt 0)) (\<lambda>shard_index.
       Inr (JDict [(''shard_id'', shard_id), (''shard_role'', shard_role),
                   (''shard_index'', shard_index)]))))"

text \<open>The variables of an API host (lines 141 to 157).\<close>

definition host_vars :: "json \<Rightarrow> json \<Rightarrow> json \<Rightarrow> error + json" where
  "host_vars region_id cluster_id node =
     err_bind (dict_get node ''ip_address'' (JStr [])) (\<lambda>ip.
     err_bind (dict_get node ''shards'' (JList [])) (\<lambda>shards.
     err_bind (py_iter shards) (\<lambda>ss.
     err_bind (map_err shard_assignment ss) (\<lambda>shard_assignments.
     err_bind (dict_get node ''id'' (JStr [])) (\<lambda>node_id.
     err_bind (dict_get node ''roles'' (JList [])) (\<lambda>roles.
     err_bind (dict_get node ''status'' (JStr [])) (\<lambda>status.
       Inr (JDict [(''ansible_host'', ip), (''node_id'', node_id), (''cluster_id'', cluster_id),
                   (''region_id'', region_id), (''node_roles'', roles), (''node_status'', status),
                   (''shard_assignments'', JList shard_assignments)]))))))))"

text \<open>The loop over the roles of a node (lines 169 to 174).\<close>

fun add_roles :: "string \<Rightarrow> json list \<Rightarrow> inventory \<Rightarrow> error + inventory" where
  "add_roles h [] ivt = Inr ivt"
| "add_roles h (role # roles) ivt =
     err_bind (role_group role) (\<lambda>g.
     err_bind (add_host_once g h (ensure_group g ivt)) (\<lambda>ivt'.
       add_roles h roles ivt'))"

text \<open>
  The body of the loop over the nodes of a cluster (lines 133 to 174). The state is the
  inventory and \<^verbatim>\<open>api_hostnames\<close>.
\<close>

type_synonym acc = "inventory \<times> string set"

definition process_node :: "json \<Rightarrow> string \<Rightarrow> json \<Rightarrow> string \<Rightarrow> json \<Rightarrow> acc \<Rightarrow> error + acc" where
  "process_node region_id region_group cluster_id cluster_group node acc =
     err_bind (dict_get node ''hostname'' (JStr [])) (\<lambda>hostname.
     err_bind (dict_get node ''ip_address'' (JStr [])) (\<lambda>ip.
       if truthy hostname \<and> truthy ip then
         err_bind (hashable_str hostname) (\<lambda>h.
         err_bind (host_vars region_id cluster_id node) (\<lambda>vars.
         err_bind (set_hostvars h vars (fst acc)) (\<lambda>ivt1.
         err_bind (append_host region_group h (ensure_group region_group ivt1)) (\<lambda>ivt2.
         err_bind (append_host cluster_group h (ensure_group cluster_group ivt2)) (\<lambda>ivt3.
         err_bind (dict_get node ''roles'' (JList [])) (\<lambda>roles.
         err_bind (py_iter roles) (\<lambda>rs.
         err_bind (add_roles h rs ivt3) (\<lambda>ivt4.
           Inr (ivt4, insert h (snd acc))))))))))
       else Inr acc))"

fun nodes_loop :: "json \<Rightarrow> string \<Rightarrow> json \<Rightarrow> string \<Rightarrow> json list \<Rightarrow> acc \<Rightarrow> error + acc" where
  "nodes_loop region_id region_group cluster_id cluster_group [] acc = Inr acc"
| "nodes_loop region_id region_group cluster_id cluster_group (node # nodes) acc =
     err_bind (process_node region_id region_group cluster_id cluster_group node acc)
       (nodes_loop region_id region_group cluster_id cluster_group nodes)"

text \<open>The loop over the clusters of a region (lines 127 to 174), with the count of
  requests made.\<close>

fun clusters_loop ::
  "config \<Rightarrow> network \<Rightarrow> json \<Rightarrow> string \<Rightarrow> json list \<Rightarrow> acc \<Rightarrow> nat \<Rightarrow> (error + acc \<times> nat) option" where
  "clusters_loop cfg net region_id region_group [] acc k = Some (Inr (acc, k))"
| "clusters_loop cfg net region_id region_group (cluster # clusters) acc k =
     (case err_bind (subscript cluster ''id'') (\<lambda>cluster_id.
           err_bind (py_format cluster_id) (\<lambda>c. Inr (cluster_id, c))) of
        Inl e \<Rightarrow> Some (Inl e)
      | Inr (cluster_id, c) \<Rightarrow>
          (case api_get cfg net (''/clusters/'' @ c @ ''/nodes'') k of
             None \<Rightarrow> None
           | Some (Inl e) \<Rightarrow> Some (Inl e)
           | Some (Inr (nodes, k')) \<Rightarrow>
               (case nodes_loop region_id region_group cluster_id (''cluster_'' @ c) nodes acc of
                  Inl e \<Rightarrow> Some (Inl e)
                | Inr acc' \<Rightarrow> clusters_loop cfg net region_id region_group clusters acc' k')))"

text \<open>The loop over the regions (lines 122 to 174).\<close>

fun regions_loop ::
  "config \<Rightarrow> network \<Rightarrow> json list \<Rightarrow> acc \<Rightarrow> nat \<Rightarrow> (error + acc \<times> nat) option" where
  "regions_loop cfg net [] acc k = Some (Inr (acc, k))"
| "regions_loop cfg net (region # regions) acc k =
     (case err_bind (subscript region ''id'') (\<lambda>region_id.
           err_bind (py_format region_id) (\<lambda>r. Inr (region_id, r))) of
        Inl e \<Rightarrow> Some (Inl e)
      | Inr (region_id, r) \<Rightarrow>
          (case api_get cfg net (''/regions/'' @ r @ ''/clusters'') k of
             None \<Rightarrow> None
           | Some (Inl e) \<Rightarrow> Some (Inl e)
           | Some (Inr (clusters, k')) \<Rightarrow>
               (case clusters_loop cfg net region_id (''region_'' @ r) clusters acc k' of
                  None \<Rightarrow> None
                | Some (Inl e) \<Rightarrow> Some (Inl e)
                | Some (Inr (acc', k'')) \<Rightarrow> regions_loop cfg net regions acc' k'')))"

text \<open>The static variables of a host as the dict of strings Python holds.\<close>

definition vars_json :: "(string \<times> string) list \<Rightarrow> json" where
  "vars_json vars = JDict (map (\<lambda>kv. (fst kv, JStr (snd kv))) vars)"

text \<open>The merge of the static inventory (lines 178 to 187): the hosts of one group, then
  the groups in the order of \<^verbatim>\<open>static_groups.items()\<close>.\<close>

fun merge_hosts ::
  "string \<Rightarrow> static_hostvars \<Rightarrow> string set \<Rightarrow> string list \<Rightarrow> inventory \<Rightarrow> error + inventory" where
  "merge_hosts grp shv api_hostnames [] ivt = Inr ivt"
| "merge_hosts grp shv api_hostnames (hostname # hosts) ivt =
     (if hostname \<in> api_hostnames then merge_hosts grp shv api_hostnames hosts ivt
      else
        err_bind (add_host_once grp hostname (ensure_group grp ivt)) (\<lambda>ivt1.
        err_bind (case map_of shv hostname of
                    None \<Rightarrow> Inr ivt1
                  | Some vars \<Rightarrow> set_hostvars hostname (vars_json vars) ivt1) (\<lambda>ivt2.
          merge_hosts grp shv api_hostnames hosts ivt2)))"

fun merge_static ::
  "static_groups \<Rightarrow> static_hostvars \<Rightarrow> string set \<Rightarrow> inventory \<Rightarrow> error + inventory" where
  "merge_static [] shv api_hostnames ivt = Inr ivt"
| "merge_static (gh # rest) shv api_hostnames ivt =
     err_bind (merge_hosts (fst gh) shv api_hostnames (snd gh) ivt)
       (merge_static rest shv api_hostnames)"

definition build_inventory ::
  "config \<Rightarrow> network \<Rightarrow> string list option \<Rightarrow> (error + inventory) option" where
  "build_inventory cfg net file =
     (case api_get cfg net ''/regions'' 0 of
        None \<Rightarrow> None
      | Some (Inl e) \<Rightarrow> Some (Inl e)
      | Some (Inr (regions, k)) \<Rightarrow>
          (case regions_loop cfg net regions ([(''_meta'', Meta [])], {}) k of
             None \<Rightarrow> None
           | Some (Inl e) \<Rightarrow> Some (Inl e)
           | Some (Inr ((ivt, api_hostnames), k')) \<Rightarrow>
               Some (err_bind (get_static_inventory file) (\<lambda>static.
                       merge_static (fst static) (snd static) api_hostnames ivt))))"

section \<open>The document emitter: \<^verbatim>\<open>main\<close>\<close>














section \<open>Vocabulary of the claims\<close>

subsection \<open>Pages\<close>

text \<open>
  A well-formed page is a JSON object whose \<^verbatim>\<open>items\<close>, when present, is a list, whose
  \<^verbatim>\<open>has_more\<close>, when present, is a boolean, and whose \<^verbatim>\<open>next_cursor\<close>, when present, is
  a string. A page is the last one when \<^verbatim>\<open>has_more\<close> is false or missing, or
  \<^verbatim>\<open>next_cursor\<close> is empty or missing.
\<close>

definition page_items :: "(string \<times> json) list \<Rightarrow> json list" where
  "page_items p = (case map_of p ''items'' of Some (JList xs) \<Rightarrow> xs | _ \<Rightarrow> [])"

definition page_has_more :: "(string \<times> json) list \<Rightarrow> bool" where
  "page_has_more p = (case map_of p ''has_more'' of Some (JBool b) \<Rightarrow> b | _ \<Rightarrow> False)"

definition page_cursor :: "(string \<times> json) list \<Rightarrow> string" where
  "page_cursor p = (case map_of p ''next_cursor'' of Some (JStr s) \<Rightarrow> s | _ \<Rightarrow> [])"

definition wf_page :: "(string \<times> json) list \<Rightarrow> bool" where
  "wf_page p =
     ((case map_of p ''items'' of None \<Rightarrow> True | Some (JList xs) \<Rightarrow> True | Some _ \<Rightarrow> False) \<and>
      (case map_of p ''has_more'' of None \<Rightarrow> True | Some (JBool b) \<Rightarrow> True | Some _ \<Rightarrow> False) \<and>
      (case map_of p ''next_cursor'' of None \<Rightarrow> True | Some (JStr s) \<Rightarrow> True | Some _ \<Rightarrow> False))"

definition last_page :: "(string \<times> json) list \<Rightarrow> bool" where
  "last_page p = (page_has_more p = False \<or> page_cursor p = [])"



subsection \<open>Lines of the static file\<close>


text \<open>The state of the parser between two lines: the group that is open, if any, is a key
  of \<^verbatim>\<open>groups\<close>.\<close>

definition group_open :: "pstate \<Rightarrow> bool" where
  "group_open st = (case current_group st of None \<Rightarrow> True | Some g \<Rightarrow> map_of (groups st) g \<noteq> None)"

subsection \<open>The document\<close>

text \<open>The \<^verbatim>\<open>hosts\<close> list of a group of the document (empty when the document has no such
  group), and the \<^verbatim>\<open>_meta.hostvars\<close> entry of a hostname.\<close>

definition hosts_of :: "inventory \<Rightarrow> string \<Rightarrow> string list" where
  "hosts_of ivt g = (case map_of ivt g of Some (Group hs) \<Rightarrow> hs | _ \<Rightarrow> [])"

definition hostvars_of :: "inventory \<Rightarrow> string \<Rightarrow> json option" where
  "hostvars_of ivt h = (case map_of ivt ''_meta'' of Some (Meta hv) \<Rightarrow> map_of hv h | _ \<Rightarrow> None)"

subsection \<open>Nodes and the API walk\<close>

text \<open>The hostname under which a node object is emitted: it has a non-empty string
  \<^verbatim>\<open>hostname\<close> and a non-empty \<^verbatim>\<open>ip_address\<close>.\<close>

definition valid_host :: "json \<Rightarrow> string option" where
  "valid_host node =
     (case dict_get node ''hostname'' (JStr []) of
        Inr (JStr h) \<Rightarrow>
          (case dict_get node ''ip_address'' (JStr []) of
             Inr ip \<Rightarrow> if h \<noteq> [] \<and> truthy ip then Some h else None
           | Inl e \<Rightarrow> None)
      | _ \<Rightarrow> None)"

text \<open>The role tags on a node: what \<^verbatim>\<open>for role in node.get("roles", [])\<close> runs over.\<close>

definition node_roles :: "json \<Rightarrow> error + json list" where
  "node_roles node = err_bind (dict_get node ''roles'' (JList [])) py_iter"

text \<open>
  The API walk in traversal order (region order, then cluster order, then node order):
  one visit for each node object the three nested loops of \<open>build_inventory\<close> reach,
  with the region and cluster it is reached under. The walk makes the same requests as
  the loops, in the same order.
\<close>

record visit =
  visit_region_id :: json
  visit_region_group :: string
  visit_cluster_id :: json
  visit_cluster_group :: string
  visit_node :: json

fun clusters_walk ::
  "config \<Rightarrow> network \<Rightarrow> json \<Rightarrow> string \<Rightarrow> json list \<Rightarrow> nat \<Rightarrow> (error + visit list \<times> nat) option" where
  "clusters_walk cfg net region_id region_group [] k = Some (Inr ([], k))"
| "clusters_walk cfg net region_id region_group (cluster # clusters) k =
     (case err_bind (subscript cluster ''id'') (\<lambda>cluster_id.
           err_bind (py_format cluster_id) (\<lambda>c. Inr (cluster_id, c))) of
        Inl e \<Rightarrow> Some (Inl e)
      | Inr (cluster_id, c) \<Rightarrow>
          (case api_get cfg net (''/clusters/'' @ c @ ''/nodes'') k of
             None \<Rightarrow> None
           | Some (Inl e) \<Rightarrow> Some (Inl e)
           | Some (Inr (nodes, k1)) \<Rightarrow>
               (case clusters_walk cfg net region_id region_group clusters k1 of
                  None \<Rightarrow> None
                | Some (Inl e) \<Rightarrow> Some (Inl e)
                | Some (Inr (vs, k2)) \<Rightarrow>
                    Some (Inr (map (\<lambda>node. \<lparr>visit_region_id = region_id,
                                            visit_region_group = region_group,
                                            visit_cluster_id = cluster_id,
                                            visit_cluster_group = ''cluster_'' @ c,
                                            visit_node = node\<rparr>) nodes @ vs, k2)))))"

fun regions_walk ::
  "config \<Rightarrow> network \<Rightarrow> json list \<Rightarrow> nat \<Rightarrow> (error + visit list \<times> nat) option" where
  "regions_walk cfg net [] k = Some (Inr ([], k))"
| "regions_walk cfg net (region # regions) k =
     (case err_bind (subscript region ''id'') (\<lambda>region_id.
           err_bind (py_format region_id) (\<lambda>r. Inr (region_id, r))) of
        Inl e \<Rightarrow> Some (Inl e)
      | Inr (region_id, r) \<Rightarrow>
          (case api_get cfg net (''/regions/'' @ r @ ''/clusters'') k of
             None \<Rightarrow> None
           | Some (Inl e) \<Rightarrow> Some (Inl e)
           | Some (Inr (clusters, k1)) \<Rightarrow>
               (case clusters_walk cfg net region_id (''region_'' @ r) clusters k1 of
                  None \<Rightarrow> None
                | Some (Inl e) \<Rightarrow> Some (Inl e)
                | Some (Inr (vs, k2)) \<Rightarrow>
                    (case regions_walk cfg net regions k2 of
                       None \<Rightarrow> None
                     | Some (Inl e) \<Rightarrow> Some (Inl e)
                     | Some (Inr (ws, k3)) \<Rightarrow> Some (Inr (vs @ ws, k3))))))"

definition api_walk :: "config \<Rightarrow> network \<Rightarrow> (error + visit list) option" where
  "api_walk cfg net =
     (case api_get cfg net ''/regions'' 0 of
        None \<Rightarrow> None
      | Some (Inl e) \<Rightarrow> Some (Inl e)
      | Some (Inr (regions, k)) \<Rightarrow>
          (case regions_walk cfg net regions k of
             None \<Rightarrow> None
           | Some (Inl e) \<Rightarrow> Some (Inl e)
           | Some (Inr (vs, k1)) \<Rightarrow> Some (Inr vs)))"

text \<open>The hostname a visit emits, and the variables built for it.\<close>

definition visit_host :: "visit \<Rightarrow> string option" where
  "visit_host v = valid_host (visit_node v)"

definition visit_vars :: "visit \<Rightarrow> error + json" where
  "visit_vars v = host_vars (visit_region_id v) (visit_cluster_id v) (visit_node v)"

text \<open>The loop body applied to a visit, and to the visits in order.\<close>

definition process_visit :: "visit \<Rightarrow> acc \<Rightarrow> error + acc" where
  "process_visit v acc =
     process_node (visit_region_id v) (visit_region_group v) (visit_cluster_id v)
       (visit_cluster_group v) (visit_node v) acc"

fun process_visits :: "visit list \<Rightarrow> acc \<Rightarrow> error + acc" where
  "process_visits [] acc = Inr acc"
| "process_visits (v # vs) acc = err_bind (process_visit v acc) (process_visits vs)"

text \<open>The groups a node is put in: its region group, its cluster group, the groups of its role tags.\<close>

definition visit_groups :: "visit \<Rightarrow> string set" where
  "visit_groups v =
     {visit_region_group v, visit_cluster_group v} \<union>
     {g. \<exists>rs r. node_roles (visit_node v) = Inr rs \<and> r \<in> set rs \<and> role_group r = Inr g}"

text \<open>A node object whose \<^verbatim>\<open>hostname\<close> or \<^verbatim>\<open>ip_address\<close> is empty or absent.\<close>

definition lacks_host_or_ip :: "json \<Rightarrow> bool" where
  "lacks_host_or_ip node =
     (case node of
        JDict kvs \<Rightarrow>
          map_of kvs ''hostname'' = None \<or> map_of kvs ''hostname'' = Some (JStr []) \<or>
          map_of kvs ''ip_address'' = None \<or> map_of kvs ''ip_address'' = Some (JStr [])
      | _ \<Rightarrow> False)"

section \<open>Example inputs\<close>

definition example_config :: config where
  "example_config = \<lparr>API_URL = ''http://10.10.10.2:8090/api/v1'', API_KEY = ''secret''\<rparr>"







definition single_page :: "json list \<Rightarrow> (string \<times> json) list" where
  "single_page xs = [(''items'', JList xs), (''has_more'', JBool False), (''next_cursor'', JStr [])]"

text \<open>A platform with one region \<^verbatim>\<open>r1\<close> and one cluster \<^verbatim>\<open>c1\<close>, whose nodes are given.\<close>

definition example_net :: "json list \<Rightarrow> network" where
  "example_net nodes k req =
     (if fst req = ''http://10.10.10.2:8090/api/v1/regions''
        then Body (JDict (single_page [JDict [(''id'', JStr ''r1'')]]))
      else if fst req = ''http://10.10.10.2:8090/api/v1/regions/r1/clusters''
        then Body (JDict (single_page [JDict [(''id'', JStr ''c1'')]]))
      else if fst req = ''http://10.10.10.2:8090/api/v1/clusters/c1/nodes''
        then Body (JDict (single_page nodes))
      else Transport_error)"

definition example_visit :: "json \<Rightarrow> visit" where
  "example_visit node =
     \<lparr>visit_region_id = JStr ''r1'', visit_region_group = ''region_r1'',
      visit_cluster_id = JStr ''c1'', visit_cluster_group = ''cluster_c1'', visit_node = node\<rparr>"

definition web1 :: json where
  "web1 = JDict [(''hostname'', JStr ''web1''), (''ip_address'', JStr ''10.0.0.1''),
                 (''roles'', JList [JStr ''web'']), (''shards'', JList [])]"

definition web1_again :: json where
  "web1_again = JDict [(''hostname'', JStr ''web1''), (''ip_address'', JStr ''10.0.0.2''),
                       (''id'', JStr ''n2''), (''roles'', JList [JStr ''database''])]"

definition web1_no_ip :: json where
  "web1_no_ip = JDict [(''hostname'', JStr ''web1''), (''ip_address'', JStr []),
                       (''roles'', JList [JStr ''web''])]"

definition cp1_node :: json where
  "cp1_node = JDict [(''hostname'', JStr ''cp1''), (''ip_address'', JStr ''10.0.0.9''),
                     (''roles'', JList [JStr ''lb''])]"

definition cp1_no_ip :: json where
  "cp1_no_ip = JDict [(''hostname'', JStr ''cp1''), (''roles'', JList [JStr ''lb''])]"

definition db1 :: json where
  "db1 = JDict [(''hostname'', JStr ''db1''), (''ip_address'', JStr ''10.0.0.3''),
                (''roles'', JList [JStr ''database'', JStr ''custom''])]"

definition static_cp :: "string list" where
  "static_cp = [''[controlplane]'', ''cp1 ansible_host=10.0.0.5 env=prod'']"

text \<open>The documents \<open>build_inventory\<close> returns on these inputs.\<close>

definition web1_vars :: json where
  "web1_vars = JDict [(''ansible_host'', JStr ''10.0.0.1''), (''node_id'', JStr []),
                      (''cluster_id'', JStr ''c1''), (''region_id'', JStr ''r1''),
                      (''node_roles'', JList [JStr ''web'']), (''node_status'', JStr []),
                      (''shard_assignments'', JList [])]"

definition web1_again_vars :: json where
  "web1_again_vars = JDict [(''ansible_host'', JStr ''10.0.0.2''), (''node_id'', JStr ''n2''),
                            (''cluster_id'', JStr ''c1''), (''region_id'', JStr ''r1''),
                            (''node_roles'', JList [JStr ''database'']), (''node_status'', JStr []),
                            (''shard_assignments'', JList [])]"

definition cp1_api_vars :: json where
  "cp1_api_vars = JDict [(''ansible_host'', JStr ''10.0.0.9''), (''node_id'', JStr []),
                         (''cluster_id'', JStr ''c1''), (''region_id'', JStr ''r1''),
                         (''node_roles'', JList [JStr ''lb'']), (''node_status'', JStr []),
                         (''shard_assignments'', JList [])]"

definition cp1_static_vars :: json where
  "cp1_static_vars = JDict [(''ansible_host'', JStr ''10.0.0.5''), (''env'', JStr ''prod'')]"

definition db1_vars :: json where
  "db1_vars = JDict [(''ansible_host'', JStr ''10.0.0.3''), (''node_id'', JStr []),
                     (''cluster_id'', JStr ''c1''), (''region_id'', JStr ''r1''),
                     (''node_roles'', JList [JStr ''database'', JStr ''custom'']),
                     (''node_status'', JStr []), (''shard_assignments'', JList [])]"

definition duplicate_doc :: inventory where
  "duplicate_doc =
     [(''_meta'', Meta [(''web1'', web1_vars)]),
      (''region_r1'', Group [''web1'', ''web1'']), (''cluster_c1'', Group [''web1'', ''web1'']),
      (''web'', Group [''web1''])]"

definition again_doc :: inventory where
  "again_doc =
     [(''_meta'', Meta [(''web1'', web1_again_vars)]),
      (''region_r1'', Group [''web1'', ''web1'']), (''cluster_c1'', Group [''web1'', ''web1'']),
      (''web'', Group [''web1'']), (''db'', Group [''web1''])]"

definition web1_only_doc :: inventory where
  "web1_only_doc =
     [(''_meta'', Meta [(''web1'', web1_vars)]),
      (''region_r1'', Group [''web1'']), (''cluster_c1'', Group [''web1'']),
      (''web'', Group [''web1''])]"

definition cp1_api_doc :: inventory where
  "cp1_api_doc =
     [(''_meta'', Meta [(''cp1'', cp1_api_vars)]),
      (''region_r1'', Group [''cp1'']), (''cluster_c1'', Group [''cp1'']),
      (''lb'', Group [''cp1''])]"

definition cp1_static_doc :: inventory where
  "cp1_static_doc =
     [(''_meta'', Meta [(''cp1'', cp1_static_vars)]), (''controlplane'', Group [''cp1''])]"

definition db1_doc :: inventory where
  "db1_doc =
     [(''_meta'', Meta [(''db1'', db1_vars)]),
      (''region_r1'', Group [''db1'']), (''cluster_c1'', Group [''db1'']),
      (''db'', Group [''db1'']), (''custom'', Group [''db1''])]"

definition web1_cp1_doc :: inventory where
  "web1_cp1_doc =
     [(''_meta'', Meta [(''web1'', web1_vars), (''cp1'', cp1_static_vars)]),
      (''region_r1'', Group [''web1'']), (''cluster_c1'', Group [''web1'']),
      (''web'', Group [''web1'']), (''controlplane'', Group [''cp1''])]"



section \<open>The fetcher follows the pages\<close>

lemma wf_page_items:
  "wf_page p \<Longrightarrow> dict_get (JDict p) ''items'' (JList []) = Inr (JList (page_items p))"
  by (simp add: wf_page_def page_items_def split: option.splits json.splits)

lemma wf_page_has_more:
  "wf_page p \<Longrightarrow> dict_get (JDict p) ''has_more'' (JBool False) = Inr (JBool (page_has_more p))"
  by (simp add: wf_page_def page_has_more_def split: option.splits json.splits)

lemma wf_page_cursor:
  "wf_page p \<Longrightarrow> dict_get (JDict p) ''next_cursor'' (JStr []) = Inr (JStr (page_cursor p))"
  by (simp add: wf_page_def page_cursor_def split: option.splits json.splits)

lemma page_step_wf:
  assumes "wf_page p"
  shows "page_step cfg path (JDict p) items =
           Inr (items @ page_items p,
                if last_page p then None else Some (next_url cfg path (page_cursor p)))"
  unfolding page_step_def wf_page_items [OF assms] wf_page_has_more [OF assms]
    wf_page_cursor [OF assms]
  by (simp add: err_bind_def last_page_def)




lemma api_get_loop_last:
  assumes "wf_page q" "last_page q" "net k (make_request cfg url) = Body (JDict q)"
  shows "api_get_loop cfg net path url items k = Some (Inr (items @ page_items q, Suc k))"
  using assms by (subst api_get_loop.simps) (simp add: page_step_wf)









section \<open>The parser tolerates malformed lines\<close>








subsection \<open>The parser raises no error\<close>

text \<open>\<^verbatim>\<open>parts[0]\<close> and \<^verbatim>\<open>groups[current_group]\<close> never raise: a stripped line that is not
  empty has a first token, and the open group was entered in \<^verbatim>\<open>groups\<close> by its header.\<close>

lemma split_ws_nonempty:
  "cur \<noteq> [] \<or> (\<exists>c \<in> set s. \<not> is_space c) \<Longrightarrow> split_ws cur s \<noteq> []"
  by (induction s arbitrary: cur) auto

lemma strip_has_token:
  assumes "strip s \<noteq> []"
  shows "\<exists>c \<in> set (strip s). \<not> is_space c"
proof -
  let ?r = "dropWhile is_space (rev (dropWhile is_space s))"
  from assms have "?r \<noteq> []" by (simp add: strip_def)
  then have "\<not> is_space (hd ?r)" by (rule hd_dropWhile)
  moreover from \<open>?r \<noteq> []\<close> have "hd ?r \<in> set (strip s)"
    by (simp add: strip_def)
  ultimately show ?thesis by blast
qed

lemma py_split_strip_nonempty: "strip s \<noteq> [] \<Longrightarrow> py_split (strip s) \<noteq> []"
  unfolding py_split_def by (rule split_ws_nonempty) (simp add: strip_has_token)

lemma parse_line_total:
  assumes "group_open st"
  shows "\<exists>st'. parse_line st raw = Inr st' \<and> group_open st'"
proof -
  let ?line = "strip raw"
  consider (skip) "?line = [] \<or> startswith ?line (CHR ''#'') \<or> startswith ?line (CHR '';'')"
    | (header) "\<not> (?line = [] \<or> startswith ?line (CHR ''#'') \<or> startswith ?line (CHR '';''))"
        "startswith ?line (CHR ''['') \<and> endswith ?line (CHR '']'')"
    | (host) "\<not> (?line = [] \<or> startswith ?line (CHR ''#'') \<or> startswith ?line (CHR '';''))"
        "\<not> (startswith ?line (CHR ''['') \<and> endswith ?line (CHR '']''))"
    by blast
  then show ?thesis
  proof cases
    case skip
    with assms show ?thesis by (simp add: parse_line_def Let_def)
  next
    case header
    then show ?thesis
      by (simp add: parse_line_def Let_def group_open_def update_conv')
  next
    case host
    show ?thesis
    proof (cases "current_group st")
      case None
      with host assms show ?thesis by (auto simp: parse_line_def Let_def)
    next
      case (Some g)
      with assms obtain hosts where hosts: "map_of (groups st) g = Some hosts"
        by (auto simp: group_open_def)
      from host(1) have "py_split ?line \<noteq> []"
        by (simp add: py_split_strip_nonempty)
      then obtain hostname rest where parts: "py_split ?line = hostname # rest"
        by (cases "py_split ?line") auto
      from host Some hosts parts show ?thesis
        by (auto simp: parse_line_def Let_def group_open_def update_conv')
    qed
  qed
qed

lemma parse_lines_total:
  "group_open st \<Longrightarrow> \<exists>st'. parse_lines st ls = Inr st'"
proof (induction ls arbitrary: st)
  case Nil
  then show ?case by simp
next
  case (Cons l ls)
  from parse_line_total [OF Cons.prems, of l] obtain st1 where
    "parse_line st l = Inr st1" "group_open st1"
    by blast
  with Cons.IH [of st1] show ?case by simp
qed

lemma get_static_inventory_total: "\<exists>sg shv. get_static_inventory file = Inr (sg, shv)"
proof (cases "file")
  case None
  then show ?thesis by (simp add: get_static_inventory_def)
next
  case (Some ls)
  have "group_open \<lparr>groups = [], hostvars = [], current_group = None\<rparr>"
    by (simp add: group_open_def)
  from parse_lines_total [OF this, of ls] Some show ?thesis
    by (auto simp: get_static_inventory_def)
qed

section \<open>The builder\<close>

subsection \<open>What each operation does to the groups and the host variables\<close>

lemma err_bind_Inr_iff [simp]:
  "err_bind m f = Inr y \<longleftrightarrow> (\<exists>x. m = Inr x \<and> f x = Inr y)"
  by (cases m) (simp_all add: err_bind_def)

lemma err_bind_Inr [simp]: "err_bind (Inr x) f = f x"
  by (simp add: err_bind_def)

lemma err_bind_Inl [simp]: "err_bind (Inl e) f = Inl e"
  by (simp add: err_bind_def)

lemma hosts_of_ensure_group [simp]: "hosts_of (ensure_group g ivt) g' = hosts_of ivt g'"
  by (simp add: hosts_of_def ensure_group_def update_conv')

lemma hostvars_of_ensure_group [simp]: "hostvars_of (ensure_group g ivt) h = hostvars_of ivt h"
  by (simp add: hostvars_of_def ensure_group_def update_conv')

lemma get_hosts_ensure_group:
  "get_hosts g (ensure_group g ivt) = Inr hs \<Longrightarrow> hs = hosts_of ivt g"
  by (auto simp: get_hosts_def ensure_group_def hosts_of_def update_conv'
      split: option.splits entry.splits if_splits)

lemma get_hosts_Inr: "get_hosts g ivt = Inr hs \<longleftrightarrow> map_of ivt g = Some (Group hs)"
  by (auto simp: get_hosts_def split: option.splits entry.splits)

lemma append_host_Inr:
  "append_host g h ivt = Inr ivt' \<longleftrightarrow>
     (\<exists>hs. map_of ivt g = Some (Group hs) \<and> ivt' = AList.update g (Group (hs @ [h])) ivt)"
  by (auto simp: append_host_def get_hosts_Inr)

lemma hosts_of_update_group:
  "hosts_of (AList.update g (Group hs) ivt) g' = (if g' = g then hs else hosts_of ivt g')"
  by (simp add: hosts_of_def update_conv')

lemma hostvars_of_update_group:
  "map_of ivt g = Some (Group hs') \<Longrightarrow>
   hostvars_of (AList.update g (Group hs) ivt) x = hostvars_of ivt x"
  by (cases "g = ''_meta''") (simp_all add: hostvars_of_def update_conv')

lemma append_host_effect:
  assumes "append_host g h ivt = Inr ivt'"
  shows "hosts_of ivt' g' = (if g' = g then hosts_of ivt g @ [h] else hosts_of ivt g')"
    and "hostvars_of ivt' x = hostvars_of ivt x"
proof -
  from assms obtain hs where hs: "map_of ivt g = Some (Group hs)"
    and ivt': "ivt' = AList.update g (Group (hs @ [h])) ivt"
    by (auto simp: append_host_Inr)
  from hs have "hosts_of ivt g = hs" by (simp add: hosts_of_def)
  then show "hosts_of ivt' g' = (if g' = g then hosts_of ivt g @ [h] else hosts_of ivt g')"
    by (simp add: ivt' hosts_of_update_group)
  show "hostvars_of ivt' x = hostvars_of ivt x"
    unfolding ivt' by (rule hostvars_of_update_group [OF hs])
qed

lemma add_host_once_cases:
  assumes "add_host_once g h ivt = Inr ivt'"
  shows "(h \<in> set (hosts_of ivt g) \<and> ivt' = ivt) \<or>
         (h \<notin> set (hosts_of ivt g) \<and> append_host g h ivt = Inr ivt')"
proof -
  from assms obtain hs where hs: "map_of ivt g = Some (Group hs)"
    and r: "(if h \<in> set hs then Inr ivt else append_host g h ivt) = Inr ivt'"
    by (auto simp: add_host_once_def get_hosts_Inr)
  from hs have "hosts_of ivt g = hs" by (simp add: hosts_of_def)
  with r show ?thesis by (auto split: if_splits)
qed

lemma add_host_once_effect:
  assumes "add_host_once g h ivt = Inr ivt'"
  shows "hosts_of ivt' g' =
           (if g' = g \<and> h \<notin> set (hosts_of ivt g) then hosts_of ivt g @ [h] else hosts_of ivt g')"
    and "hostvars_of ivt' x = hostvars_of ivt x"
  using add_host_once_cases [OF assms] append_host_effect [of g h ivt ivt']
  by auto

lemma set_hostvars_effect:
  assumes "set_hostvars h v ivt = Inr ivt'"
  shows "hosts_of ivt' g = hosts_of ivt g"
    and "hostvars_of ivt' x = (if x = h then Some v else hostvars_of ivt x)"
proof -
  from assms obtain hv where hv: "map_of ivt ''_meta'' = Some (Meta hv)"
    and ivt': "ivt' = AList.update ''_meta'' (Meta (AList.update h v hv)) ivt"
    by (auto simp: set_hostvars_def split: option.splits entry.splits)
  show "hosts_of ivt' g = hosts_of ivt g"
    using hv by (cases "g = ''_meta''") (simp_all add: ivt' hosts_of_def update_conv')
  show "hostvars_of ivt' x = (if x = h then Some v else hostvars_of ivt x)"
    using hv by (simp add: ivt' hostvars_of_def update_conv')
qed

lemma add_roles_effect:
  assumes "add_roles h rs ivt = Inr ivt'"
  shows "hosts_of ivt' g =
           (if h \<notin> set (hosts_of ivt g) \<and> (\<exists>r \<in> set rs. role_group r = Inr g)
            then hosts_of ivt g @ [h] else hosts_of ivt g)"
    and "hostvars_of ivt' x = hostvars_of ivt x"
    and "\<forall>r \<in> set rs. \<exists>g. role_group r = Inr g"
  using assms
proof (induction rs arbitrary: ivt)
  case Nil
  { case 1 then show ?case by simp }
  { case 2 then show ?case by simp }
  { case 3 then show ?case by simp }
next
  case (Cons r rs)
  { case 1
    then obtain g1 ivt1 where g1: "role_group r = Inr g1"
      and a: "add_host_once g1 h (ensure_group g1 ivt) = Inr ivt1"
      and b: "add_roles h rs ivt1 = Inr ivt'"
      by auto
    have h1: "hosts_of ivt1 g =
           (if g = g1 \<and> h \<notin> set (hosts_of ivt g1) then hosts_of ivt g1 @ [h] else hosts_of ivt g)"
      using add_host_once_effect(1) [OF a, of g] by simp
    show ?case
      unfolding Cons.IH(1) [OF b] h1 using g1 by auto
  }
  { case 2
    then obtain g1 ivt1 where g1: "role_group r = Inr g1"
      and a: "add_host_once g1 h (ensure_group g1 ivt) = Inr ivt1"
      and b: "add_roles h rs ivt1 = Inr ivt'"
      by auto
    show ?case
      using Cons.IH(2) [OF b] add_host_once_effect(2) [OF a, of x] by simp
  }
  { case 3
    then obtain g1 ivt1 where g1: "role_group r = Inr g1"
      and b: "add_roles h rs ivt1 = Inr ivt'"
      by auto
    show ?case
      using Cons.IH(3) [OF b] g1 by simp
  }
qed

lemma valid_host_Some:
  "valid_host node = Some h \<longleftrightarrow>
     (\<exists>ip. dict_get node ''hostname'' (JStr []) = Inr (JStr h) \<and> h \<noteq> [] \<and>
           dict_get node ''ip_address'' (JStr []) = Inr ip \<and> truthy ip)"
  by (auto simp: valid_host_def split: sum.splits json.splits if_splits)

lemma hashable_str_Inr: "hashable_str v = Inr s \<longleftrightarrow> v = JStr s"
  by (cases v) auto

lemma process_node_skip:
  assumes "valid_host node = None"
    and "process_node rid rg cid cg node acc = Inr acc'"
  shows "acc' = acc"
proof -
  from assms(2) obtain hostname ip where hn: "dict_get node ''hostname'' (JStr []) = Inr hostname"
    and ip: "dict_get node ''ip_address'' (JStr []) = Inr ip"
    by (auto simp: process_node_def)
  show ?thesis
  proof (cases "truthy hostname \<and> truthy ip")
    case True
    with assms(2) hn ip obtain h where "hashable_str hostname = Inr h"
      by (auto simp: process_node_def)
    then have "hostname = JStr h" by (simp add: hashable_str_Inr)
    with True hn ip have "valid_host node = Some h"
      by (simp add: valid_host_Some)
    with assms(1) show ?thesis by simp
  next
    case False
    with assms(2) hn ip show ?thesis
      by (auto simp: process_node_def)
  qed
qed

lemma process_node_valid:
  assumes "valid_host node = Some h"
    and "process_node rid rg cid cg node acc = Inr acc'"
  shows "\<exists>vars rs. host_vars rid cid node = Inr vars \<and> node_roles node = Inr rs \<and>
           (\<forall>r \<in> set rs. \<exists>g. role_group r = Inr g) \<and>
           snd acc' = insert h (snd acc) \<and>
           (\<forall>x. hostvars_of (fst acc') x = (if x = h then Some vars else hostvars_of (fst acc) x)) \<and>
           (\<forall>g. hosts_of (fst acc') g =
                  (let a = hosts_of (fst acc) g @ (if g = rg then [h] else []) @ (if g = cg then [h] else [])
                   in if h \<notin> set a \<and> (\<exists>r \<in> set rs. role_group r = Inr g) then a @ [h] else a))"
proof -
  from assms(1) obtain ip where hn: "dict_get node ''hostname'' (JStr []) = Inr (JStr h)" "h \<noteq> []"
    and ip: "dict_get node ''ip_address'' (JStr []) = Inr ip" "truthy ip"
    by (auto simp: valid_host_Some)
  from assms(2) hn ip obtain vars ivt1 ivt2 ivt3 roles rs ivt4 where
    v: "host_vars rid cid node = Inr vars"
    and s1: "set_hostvars h vars (fst acc) = Inr ivt1"
    and s2: "append_host rg h (ensure_group rg ivt1) = Inr ivt2"
    and s3: "append_host cg h (ensure_group cg ivt2) = Inr ivt3"
    and r: "dict_get node ''roles'' (JList []) = Inr roles" "py_iter roles = Inr rs"
    and s4: "add_roles h rs ivt3 = Inr ivt4"
    and acc': "acc' = (ivt4, insert h (snd acc))"
    by (auto simp: process_node_def)
  have nr: "node_roles node = Inr rs"
    using r by (simp add: node_roles_def)
  have hv: "hostvars_of ivt4 x = (if x = h then Some vars else hostvars_of (fst acc) x)" for x
    using add_roles_effect(2) [OF s4, of x] append_host_effect(2) [OF s3, of x]
      append_host_effect(2) [OF s2, of x] set_hostvars_effect(2) [OF s1, of x]
    by simp
  have hs: "hosts_of ivt4 g =
             (let a = hosts_of (fst acc) g @ (if g = rg then [h] else []) @ (if g = cg then [h] else [])
              in if h \<notin> set a \<and> (\<exists>r \<in> set rs. role_group r = Inr g) then a @ [h] else a)" for g
    unfolding add_roles_effect(1) [OF s4] append_host_effect(1) [OF s3]
      append_host_effect(1) [OF s2] hosts_of_ensure_group set_hostvars_effect(1) [OF s1]
    by (simp add: Let_def)
  show ?thesis
    using v nr add_roles_effect(3) [OF s4] hv hs by (simp add: acc')
qed

lemma process_visits_append:
  "process_visits (vs @ ws) acc = err_bind (process_visits vs acc) (process_visits ws)"
  by (induction vs arbitrary: acc) (simp_all add: err_bind_def split: sum.splits)

lemma nodes_loop_visits:
  "nodes_loop rid rg cid cg nodes acc =
     process_visits (map (\<lambda>node. \<lparr>visit_region_id = rid, visit_region_group = rg,
        visit_cluster_id = cid, visit_cluster_group = cg, visit_node = node\<rparr>) nodes) acc"
  by (induction nodes arbitrary: acc) (simp_all add: process_visit_def err_bind_def split: sum.splits)

lemma clusters_loop_walk:
  assumes "clusters_loop cfg net rid rg cs acc k = Some (Inr (acc', k'))"
  shows "\<exists>vs. clusters_walk cfg net rid rg cs k = Some (Inr (vs, k')) \<and>
              process_visits vs acc = Inr acc'"
  using assms
proof (induction cs arbitrary: acc k)
  case Nil
  then show ?case by simp
next
  case (Cons c cs)
  from Cons.prems obtain cid cstr nodes k1 acc1 where
    id: "err_bind (subscript c ''id'') (\<lambda>cluster_id.
           err_bind (py_format cluster_id) (\<lambda>c. Inr (cluster_id, c))) = Inr (cid, cstr)"
    and get: "api_get cfg net (''/clusters/'' @ cstr @ ''/nodes'') k = Some (Inr (nodes, k1))"
    and nl: "nodes_loop rid rg cid (''cluster_'' @ cstr) nodes acc = Inr acc1"
    and rest: "clusters_loop cfg net rid rg cs acc1 k1 = Some (Inr (acc', k'))"
    by (simp split: sum.splits option.splits prod.splits del: err_bind_Inr_iff)
  from Cons.IH [OF rest] obtain vs where
    vs: "clusters_walk cfg net rid rg cs k1 = Some (Inr (vs, k'))"
    and pv: "process_visits vs acc1 = Inr acc'"
    by blast
  show ?case
    using id get vs pv nl
    by (simp add: process_visits_append nodes_loop_visits del: err_bind_Inr_iff)
qed

lemma regions_loop_walk:
  assumes "regions_loop cfg net rs acc k = Some (Inr (acc', k'))"
  shows "\<exists>vs. regions_walk cfg net rs k = Some (Inr (vs, k')) \<and>
              process_visits vs acc = Inr acc'"
  using assms
proof (induction rs arbitrary: acc k)
  case Nil
  then show ?case by simp
next
  case (Cons r rs)
  from Cons.prems obtain rid rstr clusters k1 acc1 k2 where
    id: "err_bind (subscript r ''id'') (\<lambda>region_id.
           err_bind (py_format region_id) (\<lambda>r. Inr (region_id, r))) = Inr (rid, rstr)"
    and get: "api_get cfg net (''/regions/'' @ rstr @ ''/clusters'') k = Some (Inr (clusters, k1))"
    and cl: "clusters_loop cfg net rid (''region_'' @ rstr) clusters acc k1 = Some (Inr (acc1, k2))"
    and rest: "regions_loop cfg net rs acc1 k2 = Some (Inr (acc', k'))"
    by (simp split: sum.splits option.splits prod.splits del: err_bind_Inr_iff)
  from clusters_loop_walk [OF cl] obtain vs where
    vs: "clusters_walk cfg net rid (''region_'' @ rstr) clusters k1 = Some (Inr (vs, k2))"
    and pv: "process_visits vs acc = Inr acc1"
    by blast
  from Cons.IH [OF rest] obtain ws where
    ws: "regions_walk cfg net rs k2 = Some (Inr (ws, k'))"
    and pw: "process_visits ws acc1 = Inr acc'"
    by blast
  show ?case
    using id get vs pv ws pw
    by (simp add: process_visits_append del: err_bind_Inr_iff)
qed

lemma build_inventory_walk:
  assumes "build_inventory cfg net file = Some (Inr doc)"
  shows "\<exists>vs acc sg shv. api_walk cfg net = Some (Inr vs) \<and>
           process_visits vs ([(''_meta'', Meta [])], {}) = Inr acc \<and>
           get_static_inventory file = Inr (sg, shv) \<and>
           merge_static sg shv (snd acc) (fst acc) = Inr doc"
proof -
  from assms obtain regions k ivt names k' where
    get: "api_get cfg net ''/regions'' 0 = Some (Inr (regions, k))"
    and rl: "regions_loop cfg net regions ([(''_meta'', Meta [])], {}) k = Some (Inr ((ivt, names), k'))"
    and m: "err_bind (get_static_inventory file) (\<lambda>static.
               merge_static (fst static) (snd static) names ivt) = Inr doc"
    by (simp add: build_inventory_def split: sum.splits option.splits prod.splits del: err_bind_Inr_iff)
  from regions_loop_walk [OF rl] obtain vs where
    vs: "regions_walk cfg net regions k = Some (Inr (vs, k'))"
    and pv: "process_visits vs ([(''_meta'', Meta [])], {}) = Inr (ivt, names)"
    by blast
  from m obtain sg shv where st: "get_static_inventory file = Inr (sg, shv)"
    and ms: "merge_static sg shv names ivt = Inr doc"
    by auto
  show ?thesis
    using get vs pv st ms by (simp add: api_walk_def)
qed

lemma process_visit_skip:
  assumes "visit_host v = None" "process_visit v acc = Inr acc'"
  shows "acc' = acc"
  using assms process_node_skip by (simp add: visit_host_def process_visit_def)

lemma process_visit_valid:
  assumes "visit_host v = Some h" "process_visit v acc = Inr acc'"
  shows "\<exists>vars rs. visit_vars v = Inr vars \<and> node_roles (visit_node v) = Inr rs \<and>
           (\<forall>r \<in> set rs. \<exists>g. role_group r = Inr g) \<and>
           snd acc' = insert h (snd acc) \<and>
           (\<forall>x. hostvars_of (fst acc') x = (if x = h then Some vars else hostvars_of (fst acc) x)) \<and>
           (\<forall>g. hosts_of (fst acc') g =
                  (let a = hosts_of (fst acc) g @ (if g = visit_region_group v then [h] else [])
                             @ (if g = visit_cluster_group v then [h] else [])
                   in if h \<notin> set a \<and> (\<exists>r \<in> set rs. role_group r = Inr g) then a @ [h] else a))"
  using assms process_node_valid [of "visit_node v" h "visit_region_id v" "visit_region_group v"
      "visit_cluster_id v" "visit_cluster_group v" acc acc']
  by (simp add: visit_host_def process_visit_def visit_vars_def)

text \<open>What one visit adds to a group: nothing, or its hostname once.\<close>

lemma process_visit_hosts:
  assumes "process_visit v acc = Inr acc'"
    and "visit_region_group v \<noteq> visit_cluster_group v"
  shows "\<exists>xs. hosts_of (fst acc') g = hosts_of (fst acc) g @ xs \<and>
              (\<forall>h. count_list xs h \<le> (if visit_host v = Some h then 1 else 0))"
proof (cases "visit_host v")
  case None
  have "acc' = acc" by (rule process_visit_skip [OF None assms(1)])
  then show ?thesis by simp
next
  case (Some h)
  from process_visit_valid [OF Some assms(1)] obtain rs where
    hs: "\<And>g. hosts_of (fst acc') g =
                  (let a = hosts_of (fst acc) g @ (if g = visit_region_group v then [h] else [])
                             @ (if g = visit_cluster_group v then [h] else [])
                   in if h \<notin> set a \<and> (\<exists>r \<in> set rs. role_group r = Inr g) then a @ [h] else a)"
    by blast
  have "hosts_of (fst acc') g = hosts_of (fst acc) g \<or> hosts_of (fst acc') g = hosts_of (fst acc) g @ [h]"
    using assms(2) by (auto simp: hs Let_def)
  then show ?thesis
  proof
    assume "hosts_of (fst acc') g = hosts_of (fst acc) g"
    then have "hosts_of (fst acc') g = hosts_of (fst acc) g @ [] \<and>
              (\<forall>h. count_list [] h \<le> (if visit_host v = Some h then 1 else 0))"
      by simp
    then show ?thesis by blast
  next
    assume "hosts_of (fst acc') g = hosts_of (fst acc) g @ [h]"
    then have "hosts_of (fst acc') g = hosts_of (fst acc) g @ [h] \<and>
              (\<forall>x. count_list [h] x \<le> (if visit_host v = Some x then 1 else 0))"
      using Some by simp
    then show ?thesis by blast
  qed
qed

lemma process_visits_hosts:
  assumes "process_visits vs acc = Inr acc'"
    and "\<forall>v \<in> set vs. visit_region_group v \<noteq> visit_cluster_group v"
  shows "\<exists>xs. hosts_of (fst acc') g = hosts_of (fst acc) g @ xs \<and>
              (\<forall>h. count_list xs h \<le> length (filter (\<lambda>v. visit_host v = Some h) vs))"
  using assms
proof (induction vs arbitrary: acc)
  case Nil
  then show ?case by simp
next
  case (Cons v vs)
  from Cons.prems(1) obtain acc1 where s: "process_visit v acc = Inr acc1"
    and r: "process_visits vs acc1 = Inr acc'"
    by auto
  from process_visit_hosts [OF s, of g] Cons.prems(2) obtain xs where
    xs: "hosts_of (fst acc1) g = hosts_of (fst acc) g @ xs"
    "\<And>h. count_list xs h \<le> (if visit_host v = Some h then 1 else 0)"
    by auto
  from Cons.IH [OF r] Cons.prems(2) obtain ys where
    ys: "hosts_of (fst acc') g = hosts_of (fst acc1) g @ ys"
    "\<And>h. count_list ys h \<le> length (filter (\<lambda>v. visit_host v = Some h) vs)"
    by auto
  have "hosts_of (fst acc') g = hosts_of (fst acc) g @ (xs @ ys)"
    by (simp add: xs ys)
  moreover have "count_list (xs @ ys) h \<le> length (filter (\<lambda>v. visit_host v = Some h) (v # vs))" for h
    using xs(2) [of h] ys(2) [of h] by (simp split: if_splits)
  ultimately show ?case by blast
qed

lemma process_visits_names:
  assumes "process_visits vs acc = Inr acc'"
  shows "snd acc' = snd acc \<union> {h. \<exists>v \<in> set vs. visit_host v = Some h}"
  using assms
proof (induction vs arbitrary: acc)
  case Nil
  then show ?case by simp
next
  case (Cons v vs)
  from Cons.prems(1) obtain acc1 where s: "process_visit v acc = Inr acc1"
    and r: "process_visits vs acc1 = Inr acc'"
    by auto
  have "snd acc1 = snd acc \<union> {h. visit_host v = Some h}"
  proof (cases "visit_host v")
    case None
    have "acc1 = acc" by (rule process_visit_skip [OF None s])
    with None show ?thesis by simp
  next
    case (Some h)
    from process_visit_valid [OF Some s] show ?thesis
      using Some by auto
  qed
  with Cons.IH [OF r] show ?case by auto
qed

lemma process_visits_hostvars_other:
  assumes "process_visits vs acc = Inr acc'"
    and "\<forall>v \<in> set vs. visit_host v \<noteq> Some h"
  shows "hostvars_of (fst acc') h = hostvars_of (fst acc) h"
  using assms
proof (induction vs arbitrary: acc)
  case Nil
  then show ?case by simp
next
  case (Cons v vs)
  from Cons.prems(1) obtain acc1 where s: "process_visit v acc = Inr acc1"
    and r: "process_visits vs acc1 = Inr acc'"
    by auto
  have "hostvars_of (fst acc1) h = hostvars_of (fst acc) h"
  proof (cases "visit_host v")
    case None
    have "acc1 = acc" by (rule process_visit_skip [OF None s])
    then show ?thesis by simp
  next
    case (Some h')
    with Cons.prems(2) have "h \<noteq> h'" by auto
    with process_visit_valid [OF Some s] show ?thesis by auto
  qed
  with Cons.IH [OF r] Cons.prems(2) show ?case by simp
qed

lemma process_visits_hostvars_last:
  assumes "process_visits (pre @ v # post) acc = Inr acc'"
    and "visit_host v = Some h"
    and "\<forall>u \<in> set post. visit_host u \<noteq> Some h"
  shows "\<exists>vars. visit_vars v = Inr vars \<and> hostvars_of (fst acc') h = Some vars"
proof -
  from assms(1) obtain acc1 acc2 where a: "process_visits pre acc = Inr acc1"
    and s: "process_visit v acc1 = Inr acc2"
    and r: "process_visits post acc2 = Inr acc'"
    by (auto simp: process_visits_append)
  from process_visit_valid [OF assms(2) s] obtain vars where
    "visit_vars v = Inr vars" "hostvars_of (fst acc2) h = Some vars"
    by auto
  with process_visits_hostvars_other [OF r assms(3)] show ?thesis by simp
qed

lemma merge_hosts_hosts:
  assumes "merge_hosts g shv names hs ivt = Inr ivt'"
  shows "\<exists>xs. hosts_of ivt' g' = hosts_of ivt g' @ xs \<and> distinct xs \<and>
              set xs = (if g' = g then {x \<in> set hs. x \<notin> names \<and> x \<notin> set (hosts_of ivt g)} else {})"
  using assms
proof (induction hs arbitrary: ivt)
  case Nil
  then show ?case by simp
next
  case (Cons h hs)
  show ?case
  proof (cases "h \<in> names")
    case True
    with Cons.prems have "merge_hosts g shv names hs ivt = Inr ivt'" by simp
    from Cons.IH [OF this] True show ?thesis by auto
  next
    case False
    with Cons.prems obtain ivt1 ivt2 where
      a: "add_host_once g h (ensure_group g ivt) = Inr ivt1"
      and b: "(case map_of shv h of None \<Rightarrow> Inr ivt1
               | Some vars \<Rightarrow> set_hostvars h (vars_json vars) ivt1) = Inr ivt2"
      and r: "merge_hosts g shv names hs ivt2 = Inr ivt'"
      by auto
    have h2: "hosts_of ivt2 g'' = hosts_of ivt1 g''" for g''
      using b set_hostvars_effect(1) by (cases "map_of shv h") auto
    have h1: "hosts_of ivt1 g'' =
           (if g'' = g \<and> h \<notin> set (hosts_of ivt g) then hosts_of ivt g @ [h] else hosts_of ivt g'')" for g''
      using add_host_once_effect(1) [OF a, of g''] by simp
    from Cons.IH [OF r] obtain xs where
      xs: "hosts_of ivt' g' = hosts_of ivt2 g' @ xs" "distinct xs"
        "set xs = (if g' = g then {x \<in> set hs. x \<notin> names \<and> x \<notin> set (hosts_of ivt2 g)} else {})"
      by blast
    show ?thesis
    proof (cases "g' = g \<and> h \<notin> set (hosts_of ivt g)")
      case True
      have "hosts_of ivt' g' = hosts_of ivt g' @ (h # xs)"
        using xs(1) True by (simp add: h2 h1)
      moreover have "distinct (h # xs)"
        using xs(2,3) True by (auto simp: h2 h1)
      moreover have "set (h # xs) = {x \<in> set (h # hs). x \<notin> names \<and> x \<notin> set (hosts_of ivt g)}"
        using xs(3) True False by (auto simp: h2 h1)
      ultimately show ?thesis using True by (intro exI [of _ "h # xs"]) simp
    next
      case F: False
      have "hosts_of ivt' g' = hosts_of ivt g' @ xs"
        using xs(1) F by (auto simp: h2 h1)
      moreover have "set xs = (if g' = g then {x \<in> set (h # hs). x \<notin> names \<and> x \<notin> set (hosts_of ivt g)} else {})"
        using xs(3) F by (auto simp: h2 h1)
      ultimately show ?thesis using xs(2) by blast
    qed
  qed
qed

lemma merge_hosts_hostvars:
  assumes "merge_hosts g shv names hs ivt = Inr ivt'"
  shows "hostvars_of ivt' x =
           (if x \<in> set hs \<and> x \<notin> names \<and> map_of shv x \<noteq> None
            then map_option vars_json (map_of shv x) else hostvars_of ivt x)"
  using assms
proof (induction hs arbitrary: ivt)
  case Nil
  then show ?case by simp
next
  case (Cons h hs)
  show ?case
  proof (cases "h \<in> names")
    case True
    with Cons.prems have "merge_hosts g shv names hs ivt = Inr ivt'" by simp
    from Cons.IH [OF this] True show ?thesis by auto
  next
    case False
    with Cons.prems obtain ivt1 ivt2 where
      a: "add_host_once g h (ensure_group g ivt) = Inr ivt1"
      and b: "(case map_of shv h of None \<Rightarrow> Inr ivt1
               | Some vars \<Rightarrow> set_hostvars h (vars_json vars) ivt1) = Inr ivt2"
      and r: "merge_hosts g shv names hs ivt2 = Inr ivt'"
      by auto
    have v1: "hostvars_of ivt1 x = hostvars_of ivt x"
      using add_host_once_effect(2) [OF a, of x] by simp
    have v2: "hostvars_of ivt2 x =
                (if x = h \<and> map_of shv x \<noteq> None then map_option vars_json (map_of shv x)
                 else hostvars_of ivt1 x)"
      using b set_hostvars_effect(2) [of h _ ivt1 ivt2 x] by (cases "map_of shv h") auto
    show ?thesis
      unfolding Cons.IH [OF r] v2 v1 using False by auto
  qed
qed

lemma merge_static_hosts:
  assumes "merge_static sg shv names ivt = Inr ivt'"
  shows "\<exists>xs. hosts_of ivt' g = hosts_of ivt g @ xs \<and> distinct xs \<and>
              set xs = {x. x \<notin> names \<and> x \<notin> set (hosts_of ivt g) \<and>
                           (\<exists>hs. (g, hs) \<in> set sg \<and> x \<in> set hs)}"
  using assms
proof (induction sg arbitrary: ivt)
  case Nil
  then show ?case by simp
next
  case (Cons gh sg)
  from Cons.prems obtain ivt1 where a: "merge_hosts (fst gh) shv names (snd gh) ivt = Inr ivt1"
    and r: "merge_static sg shv names ivt1 = Inr ivt'"
    by auto
  from merge_hosts_hosts [OF a, of g] obtain xs where
    xs: "hosts_of ivt1 g = hosts_of ivt g @ xs" "distinct xs"
      "set xs = (if g = fst gh then {x \<in> set (snd gh). x \<notin> names \<and> x \<notin> set (hosts_of ivt (fst gh))} else {})"
    by blast
  from Cons.IH [OF r] obtain ys where
    ys: "hosts_of ivt' g = hosts_of ivt1 g @ ys" "distinct ys"
      "set ys = {x. x \<notin> names \<and> x \<notin> set (hosts_of ivt1 g) \<and> (\<exists>hs. (g, hs) \<in> set sg \<and> x \<in> set hs)}"
    by blast
  have "hosts_of ivt' g = hosts_of ivt g @ (xs @ ys)"
    by (simp add: xs(1) ys(1))
  moreover have "distinct (xs @ ys)"
    using xs(2) ys(2) ys(3) by (auto simp: xs(1))
  moreover have "set (xs @ ys) = {x. x \<notin> names \<and> x \<notin> set (hosts_of ivt g) \<and>
                           (\<exists>hs. (g, hs) \<in> set (gh # sg) \<and> x \<in> set hs)}"
  proof (cases "g = fst gh")
    case True
    then show ?thesis
      using xs(3) ys(3) by (cases gh) (auto simp: xs(1))
  next
    case False
    then show ?thesis
      using xs(3) ys(3) by (cases gh) (auto simp: xs(1))
  qed
  ultimately show ?case by blast
qed

lemma merge_static_hostvars:
  assumes "merge_static sg shv names ivt = Inr ivt'"
  shows "hostvars_of ivt' x =
           (if x \<notin> names \<and> map_of shv x \<noteq> None \<and> (\<exists>g hs. (g, hs) \<in> set sg \<and> x \<in> set hs)
            then map_option vars_json (map_of shv x) else hostvars_of ivt x)"
  using assms
proof (induction sg arbitrary: ivt)
  case Nil
  then show ?case by simp
next
  case (Cons gh sg)
  from Cons.prems obtain ivt1 where a: "merge_hosts (fst gh) shv names (snd gh) ivt = Inr ivt1"
    and r: "merge_static sg shv names ivt1 = Inr ivt'"
    by auto
  show ?case
    unfolding Cons.IH [OF r] merge_hosts_hostvars [OF a]
    by (cases gh) auto
qed

lemma clusters_walk_groups:
  assumes "clusters_walk cfg net rid rg cs k = Some (Inr (vs, k'))"
  shows "\<forall>v \<in> set vs. visit_region_group v = rg \<and> (\<exists>c. visit_cluster_group v = ''cluster_'' @ c)"
  using assms
proof (induction cs arbitrary: k vs)
  case Nil
  then show ?case by simp
next
  case (Cons c cs)
  from Cons.prems obtain cid cstr nodes k1 ws where
    rest: "clusters_walk cfg net rid rg cs k1 = Some (Inr (ws, k'))"
    and vs: "vs = map (\<lambda>node. \<lparr>visit_region_id = rid, visit_region_group = rg,
        visit_cluster_id = cid, visit_cluster_group = ''cluster_'' @ cstr, visit_node = node\<rparr>) nodes @ ws"
    by (auto split: sum.splits option.splits prod.splits simp del: err_bind_Inr_iff)
  from Cons.IH [OF rest] show ?case
    unfolding vs by auto
qed

lemma regions_walk_groups:
  assumes "regions_walk cfg net rs k = Some (Inr (vs, k'))"
  shows "\<forall>v \<in> set vs. visit_region_group v \<noteq> visit_cluster_group v"
  using assms
proof (induction rs arbitrary: k vs)
  case Nil
  then show ?case by simp
next
  case (Cons r rs)
  from Cons.prems obtain rid rstr cs k1 k2 us ws where
    cl: "clusters_walk cfg net rid (''region_'' @ rstr) cs k1 = Some (Inr (us, k2))"
    and rest: "regions_walk cfg net rs k2 = Some (Inr (ws, k'))"
    and vs: "vs = us @ ws"
    by (auto split: sum.splits option.splits prod.splits simp del: err_bind_Inr_iff)
  from clusters_walk_groups [OF cl] have "\<forall>v \<in> set us. visit_region_group v \<noteq> visit_cluster_group v"
    by auto
  with Cons.IH [OF rest] show ?case
    unfolding vs by auto
qed

lemma api_walk_groups:
  assumes "api_walk cfg net = Some (Inr vs)"
  shows "\<forall>v \<in> set vs. visit_region_group v \<noteq> visit_cluster_group v"
proof -
  from assms obtain regions k k' where "regions_walk cfg net regions k = Some (Inr (vs, k'))"
    by (auto simp: api_walk_def split: sum.splits option.splits prod.splits)
  then show ?thesis by (rule regions_walk_groups)
qed

lemma hosts_of_initial [simp]: "hosts_of [(''_meta'', Meta [])] g = []"
  by (simp add: hosts_of_def)

lemma hostvars_of_initial [simp]: "hostvars_of [(''_meta'', Meta [])] h = None"
  by (simp add: hostvars_of_def)

text \<open>How often a hostname stands in a group after the walk.\<close>

lemma process_visits_count_le:
  assumes "process_visits vs acc = Inr acc'"
    and "\<forall>v \<in> set vs. visit_region_group v \<noteq> visit_cluster_group v"
  shows "count_list (hosts_of (fst acc') g) h
           \<le> count_list (hosts_of (fst acc) g) h + length (filter (\<lambda>v. visit_host v = Some h) vs)"
proof -
  from process_visits_hosts [OF assms, of g] obtain xs where
    "hosts_of (fst acc') g = hosts_of (fst acc) g @ xs"
    "count_list xs h \<le> length (filter (\<lambda>v. visit_host v = Some h) vs)"
    by blast
  then show ?thesis by simp
qed

lemma process_visits_count_other:
  assumes "process_visits vs acc = Inr acc'"
    and "\<forall>v \<in> set vs. visit_region_group v \<noteq> visit_cluster_group v"
    and "\<forall>v \<in> set vs. visit_host v \<noteq> Some h"
  shows "count_list (hosts_of (fst acc') g) h = count_list (hosts_of (fst acc) g) h"
proof -
  from process_visits_hosts [OF assms(1,2), of g] obtain xs where
    xs: "hosts_of (fst acc') g = hosts_of (fst acc) g @ xs"
    "count_list xs h \<le> length (filter (\<lambda>v. visit_host v = Some h) vs)"
    by blast
  from assms(3) have "filter (\<lambda>v. visit_host v = Some h) vs = []"
    by (simp add: filter_empty_conv)
  with xs show ?thesis by simp
qed

lemma merge_static_count_api:
  assumes "merge_static sg shv names ivt = Inr ivt'"
    and "h \<in> names"
  shows "count_list (hosts_of ivt' g) h = count_list (hosts_of ivt g) h"
proof -
  from merge_static_hosts [OF assms(1), of g] obtain xs where
    "hosts_of ivt' g = hosts_of ivt g @ xs" "h \<notin> set xs"
    using assms(2) by auto
  then show ?thesis by simp
qed

lemma process_visit_count:
  assumes "visit_host v = Some h" "process_visit v acc = Inr acc'"
    and "visit_region_group v \<noteq> visit_cluster_group v"
    and "h \<notin> set (hosts_of (fst acc) g)"
  shows "count_list (hosts_of (fst acc') g) h = (if g \<in> visit_groups v then 1 else 0)"
proof -
  from process_visit_valid [OF assms(1,2)] obtain rs where
    rs: "node_roles (visit_node v) = Inr rs"
    and hs: "\<And>g. hosts_of (fst acc') g =
                  (let a = hosts_of (fst acc) g @ (if g = visit_region_group v then [h] else [])
                             @ (if g = visit_cluster_group v then [h] else [])
                   in if h \<notin> set a \<and> (\<exists>r \<in> set rs. role_group r = Inr g) then a @ [h] else a)"
    by blast
  have vg: "g \<in> visit_groups v \<longleftrightarrow>
            g = visit_region_group v \<or> g = visit_cluster_group v \<or> (\<exists>r \<in> set rs. role_group r = Inr g)"
    using rs by (auto simp: visit_groups_def)
  show ?thesis
    unfolding hs vg using assms(3,4) by (auto simp: Let_def)
qed

lemma process_visits_count_single:
  assumes "process_visits (pre @ v # post) acc = Inr acc'"
    and "\<forall>u \<in> set (pre @ v # post). visit_region_group u \<noteq> visit_cluster_group u"
    and "visit_host v = Some h"
    and "\<forall>u \<in> set pre \<union> set post. visit_host u \<noteq> Some h"
    and "h \<notin> set (hosts_of (fst acc) g)"
  shows "count_list (hosts_of (fst acc') g) h = (if g \<in> visit_groups v then 1 else 0)"
proof -
  from assms(1) obtain acc1 acc2 where a: "process_visits pre acc = Inr acc1"
    and s: "process_visit v acc1 = Inr acc2"
    and r: "process_visits post acc2 = Inr acc'"
    by (auto simp: process_visits_append)
  have "count_list (hosts_of (fst acc1) g) h = count_list (hosts_of (fst acc) g) h"
    using assms(2,4) by (intro process_visits_count_other [OF a]) auto
  with assms(5) have "h \<notin> set (hosts_of (fst acc1) g)"
    by (simp add: count_list_0_iff)
  from process_visit_count [OF assms(3) s _ this] assms(2)
  have "count_list (hosts_of (fst acc2) g) h = (if g \<in> visit_groups v then 1 else 0)"
    by simp
  moreover have "count_list (hosts_of (fst acc') g) h = count_list (hosts_of (fst acc2) g) h"
    using assms(2,4) by (intro process_visits_count_other [OF r]) auto
  ultimately show ?thesis by simp
qed


lemma lacks_host_or_ip_invalid:
  assumes "lacks_host_or_ip node"
  shows "valid_host node = None"
proof (cases "valid_host node")
  case None
  then show ?thesis .
next
  case (Some h)
  then show ?thesis
    using assms by (auto simp: valid_host_Some lacks_host_or_ip_def split: json.splits)
qed

lemma process_node_lacking:
  assumes "lacks_host_or_ip node"
  shows "process_node rid rg cid cg node acc = Inr acc"
proof -
  from assms obtain kvs where n: "node = JDict kvs"
    by (cases node) (auto simp: lacks_host_or_ip_def)
  from assms have "map_of kvs ''hostname'' = None \<or> map_of kvs ''hostname'' = Some (JStr []) \<or>
          map_of kvs ''ip_address'' = None \<or> map_of kvs ''ip_address'' = Some (JStr [])"
    by (simp add: n lacks_host_or_ip_def)
  then show ?thesis
    by (cases "map_of kvs ''hostname''"; cases "map_of kvs ''ip_address''")
       (auto simp: n process_node_def)
qed

text \<open>The run of \<open>build_inventory\<close> in two phases: the visits of the walk, then the merge.\<close>

lemma build_inventory_api:
  assumes "build_inventory cfg net file = Some (Inr doc)"
    and "api_walk cfg net = Some (Inr vs)"
  shows "\<exists>acc sg shv. process_visits vs ([(''_meta'', Meta [])], {}) = Inr acc \<and>
           merge_static sg shv (snd acc) (fst acc) = Inr doc \<and>
           snd acc = {h. \<exists>v \<in> set vs. visit_host v = Some h} \<and>
           (\<forall>v \<in> set vs. visit_region_group v \<noteq> visit_cluster_group v)"
proof -
  from build_inventory_walk [OF assms(1)] assms(2) obtain acc sg shv where
    p: "process_visits vs ([(''_meta'', Meta [])], {}) = Inr acc"
    and m: "merge_static sg shv (snd acc) (fst acc) = Inr doc"
    by auto
  from process_visits_names [OF p] have "snd acc = {h. \<exists>v \<in> set vs. visit_host v = Some h}"
    by simp
  with p m api_walk_groups [OF assms(2)] show ?thesis by blast
qed

lemma build_inventory_static:
  assumes "build_inventory cfg net file = Some (Inr doc)"
    and "api_walk cfg net = Some (Inr vs)"
    and "get_static_inventory file = Inr (sg, shv)"
  shows "\<exists>acc. process_visits vs ([(''_meta'', Meta [])], {}) = Inr acc \<and>
           merge_static sg shv (snd acc) (fst acc) = Inr doc \<and>
           snd acc = {h. \<exists>v \<in> set vs. visit_host v = Some h} \<and>
           (\<forall>v \<in> set vs. visit_region_group v \<noteq> visit_cluster_group v)"
proof -
  from build_inventory_walk [OF assms(1)] assms(2,3) obtain acc where
    p: "process_visits vs ([(''_meta'', Meta [])], {}) = Inr acc"
    and m: "merge_static sg shv (snd acc) (fst acc) = Inr doc"
    by auto
  from process_visits_names [OF p] have "snd acc = {h. \<exists>v \<in> set vs. visit_host v = Some h}"
    by simp
  with p m api_walk_groups [OF assms(2)] show ?thesis by blast
qed

subsection \<open>The example inputs, evaluated\<close>

lemma api_get_single_page:
  assumes "net k (make_request cfg (API_URL cfg @ path)) = Body (JDict (single_page xs))"
  shows "api_get cfg net path k = Some (Inr (xs, Suc k))"
proof -
  have "wf_page (single_page xs)" "last_page (single_page xs)" "page_items (single_page xs) = xs"
    by (simp_all add: wf_page_def last_page_def page_has_more_def page_items_def single_page_def)
  with assms show ?thesis
    by (simp add: api_get_def api_get_loop_last)
qed

lemma example_get_regions:
  "api_get example_config (example_net nodes) ''/regions'' k =
     Some (Inr ([JDict [(''id'', JStr ''r1'')]], Suc k))"
  by (rule api_get_single_page) (simp add: example_net_def make_request_def example_config_def)

lemma example_get_clusters:
  "api_get example_config (example_net nodes) ''/regions/r1/clusters'' k =
     Some (Inr ([JDict [(''id'', JStr ''c1'')]], Suc k))"
  by (rule api_get_single_page) (simp add: example_net_def make_request_def example_config_def)

lemma example_get_nodes:
  "api_get example_config (example_net nodes) ''/clusters/c1/nodes'' k =
     Some (Inr (nodes, Suc k))"
  by (rule api_get_single_page) (simp add: example_net_def make_request_def example_config_def)

lemma example_walk:
  "api_walk example_config (example_net nodes) = Some (Inr (map example_visit nodes))"
  using example_get_clusters [of nodes] example_get_nodes [of nodes]
  by (simp add: api_walk_def example_get_regions example_visit_def)

lemma example_build:
  "build_inventory example_config (example_net nodes) file =
     Some (err_bind (nodes_loop (JStr ''r1'') ''region_r1'' (JStr ''c1'') ''cluster_c1'' nodes
                       ([(''_meta'', Meta [])], {})) (\<lambda>acc.
           err_bind (get_static_inventory file) (\<lambda>static.
             merge_static (fst static) (snd static) (snd acc) (fst acc))))"
  using example_get_clusters [of nodes] example_get_nodes [of nodes]
  by (simp add: build_inventory_def example_get_regions err_bind_def split: sum.splits prod.splits)

lemmas node_eval =
  process_node_def host_vars_def set_hostvars_def append_host_def ensure_group_def get_hosts_def
  add_host_once_def role_group_def ROLE_MAP_def shard_assignment_def

lemmas parse_eval =
  get_static_inventory_def parse_line_def strip_def py_split_def is_space_def endswith_def
  record_var_def Let_def

lemma static_cp_parsed:
  "get_static_inventory (Some static_cp) =
     Inr ([(''controlplane'', [''cp1''])],
          [(''cp1'', [(''ansible_host'', ''10.0.0.5''), (''env'', ''prod'')])])"
  by (simp add: static_cp_def parse_eval)

lemmas doc_eval =
  web1_vars_def web1_again_vars_def cp1_api_vars_def cp1_static_vars_def db1_vars_def
  duplicate_doc_def again_doc_def web1_only_doc_def cp1_api_doc_def cp1_static_doc_def
  db1_doc_def web1_cp1_doc_def

lemma valid_host_examples:
  "valid_host web1 = Some ''web1''" "valid_host web1_again = Some ''web1''"
  "valid_host web1_no_ip = None" "valid_host cp1_node = Some ''cp1''"
  "valid_host cp1_no_ip = None" "valid_host db1 = Some ''db1''"
  by (simp_all add: valid_host_def web1_def web1_again_def web1_no_ip_def cp1_node_def
      cp1_no_ip_def db1_def)

lemma visit_host_example [simp]: "visit_host (example_visit node) = valid_host node"
  by (simp add: visit_host_def example_visit_def)

lemma again_build:
  "build_inventory example_config (example_net [web1, web1_again]) None = Some (Inr again_doc)"
  by (simp add: example_build web1_def web1_again_def node_eval get_static_inventory_def doc_eval)

lemma web1_no_ip_build:
  "build_inventory example_config (example_net [web1, web1_no_ip]) None = Some (Inr web1_only_doc)"
  by (simp add: example_build web1_def web1_no_ip_def node_eval get_static_inventory_def doc_eval)

lemma no_ip_only_build:
  "build_inventory example_config (example_net [web1_no_ip]) None = Some (Inr [(''_meta'', Meta [])])"
  by (simp add: example_build web1_no_ip_def node_eval get_static_inventory_def)

lemma cp1_api_build:
  "build_inventory example_config (example_net [cp1_node]) (Some static_cp) = Some (Inr cp1_api_doc)"
  by (simp add: example_build cp1_node_def node_eval static_cp_parsed doc_eval)

lemma cp1_static_build:
  "build_inventory example_config (example_net [cp1_no_ip]) (Some static_cp) = Some (Inr cp1_static_doc)"
  by (simp add: example_build cp1_no_ip_def node_eval static_cp_parsed doc_eval vars_json_def)

lemma db1_build:
  "build_inventory example_config (example_net [db1]) None = Some (Inr db1_doc)"
  by (simp add: example_build db1_def node_eval get_static_inventory_def doc_eval)




subsection \<open>The claims about the document\<close>

text \<open>
  Claim C3, amended. When exactly one node of the API walk with a non-empty hostname and
  IP address carries a hostname, then, whether or not the static file lists that hostname,
  the document lists it exactly once in each group of that node (its region group, its
  cluster group, the groups of its role tags) and in no other group, and its
  \<^verbatim>\<open>_meta.hostvars\<close> entry is the variables built from that node: nothing of the static
  file's data for the hostname is in the document. (As the claim is written it fails for
  a node of the walk that lacks an IP address: see the counterexample below.)
\<close>

theorem api_host_wins:
  assumes "build_inventory cfg net file = Some (Inr doc)"
    and "api_walk cfg net = Some (Inr (pre @ v # post))"
    and "visit_host v = Some h"
    and "\<forall>u \<in> set pre \<union> set post. visit_host u \<noteq> Some h"
  shows "(\<forall>g. count_list (hosts_of doc g) h = (if g \<in> visit_groups v then 1 else 0)) \<and>
         (\<exists>vars. visit_vars v = Inr vars \<and> hostvars_of doc h = Some vars)"
proof -
  from build_inventory_api [OF assms(1,2)] obtain acc sg shv where
    p: "process_visits (pre @ v # post) ([(''_meta'', Meta [])], {}) = Inr acc"
    and m: "merge_static sg shv (snd acc) (fst acc) = Inr doc"
    and n: "snd acc = {h. \<exists>u \<in> set (pre @ v # post). visit_host u = Some h}"
    and d: "\<forall>u \<in> set (pre @ v # post). visit_region_group u \<noteq> visit_cluster_group u"
    by blast
  from n assms(3) have api: "h \<in> snd acc" by auto
  have "count_list (hosts_of doc g) h = (if g \<in> visit_groups v then 1 else 0)" for g
    using process_visits_count_single [OF p d assms(3,4), of g]
      merge_static_count_api [OF m api, of g]
    by simp
  moreover from assms(4) have "\<forall>u \<in> set post. visit_host u \<noteq> Some h" by auto
  from process_visits_hostvars_last [OF p assms(3) this] obtain vars where
    v: "visit_vars v = Inr vars" "hostvars_of (fst acc) h = Some vars"
    by blast
  with merge_static_hostvars [OF m, of h] api
  have "\<exists>vars. visit_vars v = Inr vars \<and> hostvars_of doc h = Some vars" by simp
  ultimately show ?thesis by blast
qed

theorem api_host_wins_counterexample:
  "api_walk example_config (example_net [cp1_no_ip]) = Some (Inr [example_visit cp1_no_ip]) \<and>
   dict_get (visit_node (example_visit cp1_no_ip)) ''hostname'' (JStr []) = Inr (JStr ''cp1'') \<and>
   get_static_inventory (Some static_cp) =
     Inr ([(''controlplane'', [''cp1''])],
          [(''cp1'', [(''ansible_host'', ''10.0.0.5''), (''env'', ''prod'')])]) \<and>
   build_inventory example_config (example_net [cp1_no_ip]) (Some static_cp) =
     Some (Inr cp1_static_doc) \<and>
   hostvars_of cp1_static_doc ''cp1'' = Some cp1_static_vars \<and>
   hosts_of cp1_static_doc ''controlplane'' = [''cp1'']"
proof -
  have "dict_get (visit_node (example_visit cp1_no_ip)) ''hostname'' (JStr []) = Inr (JStr ''cp1'')"
    by (simp add: example_visit_def cp1_no_ip_def)
  moreover have "hostvars_of cp1_static_doc ''cp1'' = Some cp1_static_vars"
    "hosts_of cp1_static_doc ''controlplane'' = [''cp1'']"
    by (simp_all add: cp1_static_doc_def hostvars_of_def hosts_of_def)
  ultimately show ?thesis
    by (simp add: example_walk cp1_static_build static_cp_parsed)
qed

theorem api_host_wins_witness:
  "build_inventory example_config (example_net [cp1_node]) (Some static_cp) = Some (Inr cp1_api_doc) \<and>
   api_walk example_config (example_net [cp1_node]) = Some (Inr ([] @ example_visit cp1_node # [])) \<and>
   visit_host (example_visit cp1_node) = Some ''cp1'' \<and>
   get_static_inventory (Some static_cp) =
     Inr ([(''controlplane'', [''cp1''])],
          [(''cp1'', [(''ansible_host'', ''10.0.0.5''), (''env'', ''prod'')])]) \<and>
   visit_groups (example_visit cp1_node) = {''region_r1'', ''cluster_c1'', ''lb''} \<and>
   count_list (hosts_of cp1_api_doc ''region_r1'') ''cp1'' = 1 \<and>
   count_list (hosts_of cp1_api_doc ''cluster_c1'') ''cp1'' = 1 \<and>
   count_list (hosts_of cp1_api_doc ''lb'') ''cp1'' = 1 \<and>
   count_list (hosts_of cp1_api_doc ''controlplane'') ''cp1'' = 0 \<and>
   visit_vars (example_visit cp1_node) = Inr cp1_api_vars \<and>
   hostvars_of cp1_api_doc ''cp1'' = Some cp1_api_vars"
proof -
  have w: "api_walk example_config (example_net [cp1_node]) = Some (Inr ([] @ example_visit cp1_node # []))"
    by (simp add: example_walk)
  have h: "visit_host (example_visit cp1_node) = Some ''cp1''"
    by (simp add: valid_host_examples)
  have n: "\<forall>u \<in> set [] \<union> set []. visit_host u \<noteq> Some ''cp1''"
    by simp
  have g: "visit_groups (example_visit cp1_node) = {''region_r1'', ''cluster_c1'', ''lb''}"
    by (auto simp: visit_groups_def example_visit_def cp1_node_def node_roles_def role_group_def
        ROLE_MAP_def)
  have v: "visit_vars (example_visit cp1_node) = Inr cp1_api_vars"
    by (simp add: visit_vars_def example_visit_def cp1_node_def host_vars_def doc_eval)
  from api_host_wins [OF cp1_api_build w h n] have
    c: "\<And>g. count_list (hosts_of cp1_api_doc g) ''cp1'' =
           (if g \<in> visit_groups (example_visit cp1_node) then 1 else 0)"
    and e: "\<exists>vars. visit_vars (example_visit cp1_node) = Inr vars \<and>
                  hostvars_of cp1_api_doc ''cp1'' = Some vars"
    by blast+
  from e v have "hostvars_of cp1_api_doc ''cp1'' = Some cp1_api_vars" by simp
  with cp1_api_build w h static_cp_parsed g v
    c [of "''region_r1''"] c [of "''cluster_c1''"] c [of "''lb''"] c [of "''controlplane''"]
  show ?thesis by simp
qed

text \<open>
  Claim C4. The claim fails on the code: the region group and the cluster group are
  appended to without the membership test that the role groups and the static merge
  make, so a hostname that two nodes of the walk carry stands twice in them.
\<close>

theorem duplicate_hostname_listed_twice:
  "build_inventory example_config (example_net [web1, web1]) None = Some (Inr duplicate_doc) \<and>
   hosts_of duplicate_doc ''region_r1'' = [''web1'', ''web1''] \<and>
   hosts_of duplicate_doc ''cluster_c1'' = [''web1'', ''web1''] \<and>
   hosts_of duplicate_doc ''web'' = [''web1'']"
  by (simp add: example_build web1_def node_eval get_static_inventory_def doc_eval hosts_of_def)

text \<open>
  Claim C5, amended. A node object whose \<^verbatim>\<open>hostname\<close> or \<^verbatim>\<open>ip_address\<close> is empty or absent
  contributes nothing: the loop body leaves the inventory and the set of API hostnames as
  they were. A hostname that no node with a non-empty hostname and IP address carries, and
  that the static file does not list, is in no group's \<^verbatim>\<open>hosts\<close> list and has no
  \<^verbatim>\<open>_meta.hostvars\<close> entry. (As the claim is written it fails when another source carries
  the hostname of the skipped node: see the counterexample below.)
\<close>

theorem hostnames_from_valid_sources:
  "(lacks_host_or_ip node \<longrightarrow> process_node rid rg cid cg node acc = Inr acc) \<and>
   (build_inventory cfg net file = Some (Inr doc) \<and> api_walk cfg net = Some (Inr vs) \<and>
    get_static_inventory file = Inr (sg, shv) \<and>
    (\<forall>v \<in> set vs. visit_host v \<noteq> Some h) \<and> (\<forall>gh \<in> set sg. h \<notin> set (snd gh))
    \<longrightarrow> (\<forall>g. h \<notin> set (hosts_of doc g)) \<and> hostvars_of doc h = None)"
proof -
  have "(\<forall>g. h \<notin> set (hosts_of doc g)) \<and> hostvars_of doc h = None"
    if b: "build_inventory cfg net file = Some (Inr doc)"
      and w: "api_walk cfg net = Some (Inr vs)"
      and s: "get_static_inventory file = Inr (sg, shv)"
      and nv: "\<forall>v \<in> set vs. visit_host v \<noteq> Some h"
      and ns: "\<forall>gh \<in> set sg. h \<notin> set (snd gh)"
  proof -
    from build_inventory_static [OF b w s] obtain acc where
      p: "process_visits vs ([(''_meta'', Meta [])], {}) = Inr acc"
      and m: "merge_static sg shv (snd acc) (fst acc) = Inr doc"
      and d: "\<forall>u \<in> set vs. visit_region_group u \<noteq> visit_cluster_group u"
      by blast
    have c: "h \<notin> set (hosts_of (fst acc) g)" for g
      using process_visits_count_other [OF p d nv, of g] by (simp add: count_list_0_iff)
    have l: "\<not> (\<exists>hs. (g, hs) \<in> set sg \<and> h \<in> set hs)" for g
      using ns by force
    have "h \<notin> set (hosts_of doc g)" for g
    proof -
      from merge_static_hosts [OF m, of g] obtain xs where
        xs: "hosts_of doc g = hosts_of (fst acc) g @ xs"
        "set xs = {x. x \<notin> snd acc \<and> x \<notin> set (hosts_of (fst acc) g) \<and>
                           (\<exists>hs. (g, hs) \<in> set sg \<and> x \<in> set hs)}"
        by blast
      from xs(2) l [of g] have "h \<notin> set xs" by simp
      with c [of g] xs(1) show ?thesis by simp
    qed
    moreover have "\<not> (\<exists>g hs. (g, hs) \<in> set sg \<and> h \<in> set hs)"
      using l by blast
    then have "hostvars_of doc h = None"
      using merge_static_hostvars [OF m, of h] process_visits_hostvars_other [OF p nv]
      by auto
    ultimately show ?thesis by blast
  qed
  then show ?thesis
    using process_node_lacking by blast
qed

theorem hostnames_from_valid_sources_counterexample:
  "api_walk example_config (example_net [web1, web1_no_ip]) =
     Some (Inr [example_visit web1, example_visit web1_no_ip]) \<and>
   lacks_host_or_ip (visit_node (example_visit web1_no_ip)) \<and>
   dict_get (visit_node (example_visit web1_no_ip)) ''hostname'' (JStr []) = Inr (JStr ''web1'') \<and>
   build_inventory example_config (example_net [web1, web1_no_ip]) None = Some (Inr web1_only_doc) \<and>
   ''web1'' \<in> set (hosts_of web1_only_doc ''web'') \<and>
   hostvars_of web1_only_doc ''web1'' = Some web1_vars"
proof -
  have "lacks_host_or_ip (visit_node (example_visit web1_no_ip))"
    "dict_get (visit_node (example_visit web1_no_ip)) ''hostname'' (JStr []) = Inr (JStr ''web1'')"
    by (simp_all add: example_visit_def web1_no_ip_def lacks_host_or_ip_def)
  moreover have "''web1'' \<in> set (hosts_of web1_only_doc ''web'')"
    "hostvars_of web1_only_doc ''web1'' = Some web1_vars"
    by (simp_all add: web1_only_doc_def hostvars_of_def hosts_of_def)
  ultimately show ?thesis
    by (simp add: example_walk web1_no_ip_build)
qed

theorem hostnames_from_valid_sources_witness:
  "lacks_host_or_ip web1_no_ip \<and>
   process_node (JStr ''r1'') ''region_r1'' (JStr ''c1'') ''cluster_c1'' web1_no_ip
     ([(''_meta'', Meta [])], {}) = Inr ([(''_meta'', Meta [])], {}) \<and>
   build_inventory example_config (example_net [web1_no_ip]) None = Some (Inr [(''_meta'', Meta [])]) \<and>
   api_walk example_config (example_net [web1_no_ip]) = Some (Inr [example_visit web1_no_ip]) \<and>
   get_static_inventory None = Inr ([], []) \<and>
   visit_host (example_visit web1_no_ip) \<noteq> Some ''web1'' \<and>
   ''web1'' \<notin> set (hosts_of [(''_meta'', Meta [])] ''web'') \<and>
   hostvars_of [(''_meta'', Meta [])] ''web1'' = None"
proof -
  have l: "lacks_host_or_ip web1_no_ip"
    by (simp add: lacks_host_or_ip_def web1_no_ip_def)
  have w: "api_walk example_config (example_net [web1_no_ip]) = Some (Inr [example_visit web1_no_ip])"
    by (simp add: example_walk)
  have s: "get_static_inventory None = Inr ([], [])"
    by (simp add: get_static_inventory_def)
  have n: "\<forall>v \<in> set [example_visit web1_no_ip]. visit_host v \<noteq> Some ''web1''"
    by (simp add: valid_host_examples)
  have e: "\<forall>gh \<in> set ([] :: static_groups). ''web1'' \<notin> set (snd gh)"
    by simp
  from hostnames_from_valid_sources [of web1_no_ip "JStr ''r1''" "''region_r1''" "JStr ''c1''"
      "''cluster_c1''" "([(''_meta'', Meta [])], {})" example_config "example_net [web1_no_ip]" None
      "[(''_meta'', Meta [])]" "[example_visit web1_no_ip]" "[]" "[]" "''web1''"]
    l no_ip_only_build w s n e
  show ?thesis by (simp add: valid_host_examples)
qed

text \<open>
  Claim C6, amended. For every node of the API walk with a non-empty hostname and IP
  address, and every role tag on it, the document lists the node's hostname in the group
  named by the entry of \<open>ROLE_MAP\<close> for the tag when there is one, and in the group named
  by the tag itself otherwise; \<^verbatim>\<open>database\<close> resolves to \<^verbatim>\<open>db\<close> and \<^verbatim>\<open>custom\<close> to \<^verbatim>\<open>custom\<close>.
  (As the claim is written, for every node, it fails for a node without an IP address:
  see the counterexample below.)
\<close>

theorem role_group_membership:
  assumes "build_inventory cfg net file = Some (Inr doc)"
    and "api_walk cfg net = Some (Inr vs)"
    and "v \<in> set vs" and "visit_host v = Some h"
    and "node_roles (visit_node v) = Inr rs" and "JStr r \<in> set rs"
  shows "h \<in> set (hosts_of doc (case map_of ROLE_MAP r of None \<Rightarrow> r | Some g \<Rightarrow> g)) \<and>
         role_group (JStr ''database'') = Inr ''db'' \<and>
         role_group (JStr ''custom'') = Inr ''custom''"
proof -
  let ?g = "case map_of ROLE_MAP r of None \<Rightarrow> r | Some g \<Rightarrow> g"
  from build_inventory_api [OF assms(1,2)] obtain acc sg shv where
    p: "process_visits vs ([(''_meta'', Meta [])], {}) = Inr acc"
    and m: "merge_static sg shv (snd acc) (fst acc) = Inr doc"
    and d: "\<forall>u \<in> set vs. visit_region_group u \<noteq> visit_cluster_group u"
    by blast
  from assms(3) obtain pre post where vs: "vs = pre @ v # post"
    by (auto simp: in_set_conv_decomp)
  from p obtain acc1 acc2 where s: "process_visit v acc1 = Inr acc2"
    and r: "process_visits post acc2 = Inr acc"
    by (auto simp: vs process_visits_append)
  have rg: "role_group (JStr r) = Inr ?g"
    by (simp add: role_group_def)
  from process_visit_valid [OF assms(4) s] obtain rs' where
    rs': "node_roles (visit_node v) = Inr rs'"
    and hs: "\<And>g. hosts_of (fst acc2) g =
                  (let a = hosts_of (fst acc1) g @ (if g = visit_region_group v then [h] else [])
                             @ (if g = visit_cluster_group v then [h] else [])
                   in if h \<notin> set a \<and> (\<exists>r \<in> set rs'. role_group r = Inr g) then a @ [h] else a)"
    by blast
  from rs' assms(5) have "rs' = rs" by simp
  with assms(6) rg have ex: "\<exists>r \<in> set rs'. role_group r = Inr ?g" by blast
  have "h \<in> set (hosts_of (fst acc2) ?g)"
    unfolding hs [of ?g] Let_def using ex by (simp split: if_splits)
  moreover from process_visits_hosts [OF r, of ?g] d obtain xs where
    "hosts_of (fst acc) ?g = hosts_of (fst acc2) ?g @ xs"
    by (auto simp: vs)
  moreover from merge_static_hosts [OF m, of ?g] obtain ys where
    "hosts_of doc ?g = hosts_of (fst acc) ?g @ ys"
    by blast
  ultimately have "h \<in> set (hosts_of doc ?g)" by simp
  moreover have "role_group (JStr ''database'') = Inr ''db''"
    by (simp add: role_group_def ROLE_MAP_def)
  moreover have "role_group (JStr ''custom'') = Inr ''custom''"
    by (simp add: role_group_def ROLE_MAP_def)
  ultimately show ?thesis by blast
qed

theorem role_group_membership_counterexample:
  "api_walk example_config (example_net [web1_no_ip]) = Some (Inr [example_visit web1_no_ip]) \<and>
   dict_get (visit_node (example_visit web1_no_ip)) ''hostname'' (JStr []) = Inr (JStr ''web1'') \<and>
   node_roles (visit_node (example_visit web1_no_ip)) = Inr [JStr ''web''] \<and>
   role_group (JStr ''web'') = Inr ''web'' \<and>
   build_inventory example_config (example_net [web1_no_ip]) None = Some (Inr [(''_meta'', Meta [])]) \<and>
   ''web1'' \<notin> set (hosts_of [(''_meta'', Meta [])] ''web'')"
proof -
  have "dict_get (visit_node (example_visit web1_no_ip)) ''hostname'' (JStr []) = Inr (JStr ''web1'')"
    "node_roles (visit_node (example_visit web1_no_ip)) = Inr [JStr ''web'']"
    by (simp_all add: example_visit_def web1_no_ip_def node_roles_def)
  moreover have "role_group (JStr ''web'') = Inr ''web''"
    by (simp add: role_group_def ROLE_MAP_def)
  ultimately show ?thesis
    by (simp add: example_walk no_ip_only_build)
qed

theorem role_group_membership_witness:
  "build_inventory example_config (example_net [db1]) None = Some (Inr db1_doc) \<and>
   api_walk example_config (example_net [db1]) = Some (Inr [example_visit db1]) \<and>
   visit_host (example_visit db1) = Some ''db1'' \<and>
   node_roles (visit_node (example_visit db1)) = Inr [JStr ''database'', JStr ''custom''] \<and>
   ''db1'' \<in> set (hosts_of db1_doc ''db'') \<and>
   ''db1'' \<in> set (hosts_of db1_doc ''custom'') \<and>
   hosts_of db1_doc ''database'' = []"
proof -
  have w: "api_walk example_config (example_net [db1]) = Some (Inr [example_visit db1])"
    by (simp add: example_walk)
  have i: "example_visit db1 \<in> set [example_visit db1]"
    by simp
  have h: "visit_host (example_visit db1) = Some ''db1''"
    by (simp add: valid_host_examples)
  have r: "node_roles (visit_node (example_visit db1)) = Inr [JStr ''database'', JStr ''custom'']"
    by (simp add: node_roles_def example_visit_def db1_def)
  have "''db1'' \<in> set (hosts_of db1_doc (case map_of ROLE_MAP ''database'' of None \<Rightarrow> ''database'' | Some g \<Rightarrow> g))"
    using role_group_membership [OF db1_build w i h r, of "''database''"] by simp
  moreover
  have "''db1'' \<in> set (hosts_of db1_doc (case map_of ROLE_MAP ''custom'' of None \<Rightarrow> ''custom'' | Some g \<Rightarrow> g))"
    using role_group_membership [OF db1_build w i h r, of "''custom''"] by simp
  moreover have "hosts_of db1_doc ''database'' = []"
    by (simp add: hosts_of_def db1_doc_def)
  ultimately show ?thesis
    using db1_build w h r by (simp add: ROLE_MAP_def)
qed




text \<open>
  Claim C10. When several nodes of the API walk with a non-empty hostname and IP address
  carry the same hostname, the \<^verbatim>\<open>_meta.hostvars\<close> entry of that hostname in the document
  is the variables built from the one visited last: the entry is that dict as a whole,
  so no field of an earlier node is left in it.
\<close>

theorem last_node_wins:
  assumes "build_inventory cfg net file = Some (Inr doc)"
    and "api_walk cfg net = Some (Inr (pre @ v # post))"
    and "visit_host v = Some h"
    and "\<forall>u \<in> set post. visit_host u \<noteq> Some h"
  shows "\<exists>vars. visit_vars v = Inr vars \<and> hostvars_of doc h = Some vars"
proof -
  from build_inventory_api [OF assms(1,2)] obtain acc sg shv where
    p: "process_visits (pre @ v # post) ([(''_meta'', Meta [])], {}) = Inr acc"
    and m: "merge_static sg shv (snd acc) (fst acc) = Inr doc"
    and n: "snd acc = {h. \<exists>u \<in> set (pre @ v # post). visit_host u = Some h}"
    by blast
  from process_visits_hostvars_last [OF p assms(3,4)] obtain vars where
    v: "visit_vars v = Inr vars" "hostvars_of (fst acc) h = Some vars"
    by blast
  from n assms(3) have "h \<in> snd acc" by auto
  with merge_static_hostvars [OF m, of h] v show ?thesis by simp
qed

theorem last_node_wins_witness:
  "build_inventory example_config (example_net [web1, web1_again]) None = Some (Inr again_doc) \<and>
   api_walk example_config (example_net [web1, web1_again]) =
     Some (Inr ([example_visit web1] @ example_visit web1_again # [])) \<and>
   visit_host (example_visit web1) = Some ''web1'' \<and>
   visit_host (example_visit web1_again) = Some ''web1'' \<and>
   web1 \<noteq> web1_again \<and>
   visit_vars (example_visit web1_again) = Inr web1_again_vars \<and>
   hostvars_of again_doc ''web1'' = Some web1_again_vars"
proof -
  have w: "api_walk example_config (example_net [web1, web1_again]) =
     Some (Inr ([example_visit web1] @ example_visit web1_again # []))"
    by (simp add: example_walk)
  have h: "visit_host (example_visit web1_again) = Some ''web1''"
    by (simp add: valid_host_examples)
  have v: "visit_vars (example_visit web1_again) = Inr web1_again_vars"
    by (simp add: visit_vars_def example_visit_def web1_again_def host_vars_def doc_eval)
  have d: "web1 \<noteq> web1_again"
    by (simp add: web1_def web1_again_def)
  from last_node_wins [OF again_build w h] v again_build w h d show ?thesis
    by (simp add: valid_host_examples)
qed

section \<open>The emitter\<close>





end
